theory Spec2Isabelle
  imports Complex_Main "HOL-Library.AList"
begin

section \<open>The membership engine of \<open>solution/member.py\<close>\<close>

text \<open>
  The class \<open>GroupMember\<close> is embedded as a record of its attributes and one function per
  method. A method takes the state and returns the new state together with the list of
  calls it made on the context (\<open>ctx.send\<close>, \<open>ctx.send_local\<close>, \<open>ctx.set_timer\<close>,
  \<open>ctx.cancel_timer\<close>), in program order.

  Python dictionaries are association lists read with \<open>map_of\<close> and written with
  \<open>AList.update\<close> (replace in place, or append a new key) and \<open>AList.delete\<close>, which is
  the insertion order semantics of \<open>dict\<close>. Python integers are \<open>int\<close>; the float
  timestamps are only stored and compared, and are taken as \<open>real\<close>.
\<close>

subsection \<open>Data\<close>

type_synonym proc_id = string

text \<open>A register value \<open>(timestamp, generation)\<close>.\<close>

type_synonym tag = "real \<times> int"

type_synonym register = "(proc_id \<times> tag) list"

text \<open>
  One value of a sample on the wire, \<open>{'timestamp': ts, 'generation': gen}\<close>; the merge
  reads both keys with \<open>data.get(key, 0)\<close>, so either may be missing.
\<close>

record sample_entry =
  entry_timestamp :: "real option"
  entry_generation :: "int option"

type_synonym sample = "(proc_id \<times> sample_entry) list"

text \<open>
  A \<open>Message\<close>: its type and the fields of its data dictionary that the engine reads or
  writes. A field that is \<open>None\<close> is missing from the dictionary.
\<close>

record message =
  mtype :: string
  msg_seed :: "proc_id option"
  msg_added :: "sample option"
  msg_removed :: "sample option"
  msg_time :: "int option"
  msg_target :: "proc_id option"
  msg_members :: "proc_id list option"

definition Message :: "string \<Rightarrow> message" where
  "Message t = \<lparr>mtype = t, msg_seed = None, msg_added = None, msg_removed = None,
     msg_time = None, msg_target = None, msg_members = None\<rparr>"

datatype action =
    Send message proc_id
  | SendLocal message
  | SetTimer string real
  | CancelTimer string

datatype py_error = KeyError

record state =
  self_id :: proc_id
  joined :: bool
  time :: int
  added_members :: register
  removed_members :: register
  waiting_answer :: "(proc_id \<times> int) list"
  active :: "proc_id set"
  generation :: int

text \<open>
  What one callback draws from outside the engine: the clock \<open>ctx.time()\<close>, the
  results of \<open>random.choice\<close> and \<open>random.sample\<close> (the latter indexed by the position of
  the call inside the callback, since every call draws afresh), and the order in which
  a Python \<open>set\<close> is iterated.
\<close>

record env =
  now :: real
  choice :: "proc_id list \<Rightarrow> proc_id"
  sample_of :: "nat \<Rightarrow> (proc_id \<times> tag) list \<Rightarrow> nat \<Rightarrow> (proc_id \<times> tag) list"
  set_iter :: "proc_id set \<Rightarrow> proc_id list"

definition T :: real where "T = 5"
definition S :: real where "S = 3"
definition K :: nat where "K = 2"
definition SAMPLE_SIZE :: nat where "SAMPLE_SIZE = 20"

definition init :: "proc_id \<Rightarrow> state" where
  "init proc = \<lparr>self_id = proc, joined = False, time = 0, added_members = [],
     removed_members = [], waiting_answer = [], active = {}, generation = 0\<rparr>"

text \<open>\<open>d.get(k, default)\<close>\<close>

definition dict_get :: "('k \<times> 'v) list \<Rightarrow> 'k \<Rightarrow> 'v \<Rightarrow> 'v" where
  "dict_get d k dflt = (case map_of d k of None \<Rightarrow> dflt | Some v \<Rightarrow> v)"

subsection \<open>Register store\<close>

text \<open>
  \<open>_mark_added\<close>. The entry \<open>added[proc_id]\<close> has just been written, so its component 0
  is \<open>timestamp\<close>; \<open>removed[proc_id]\<close> is read under the test \<open>proc_id in removed\<close>.
\<close>

definition mark_added :: "proc_id \<Rightarrow> real \<Rightarrow> state \<Rightarrow> state" where
  "mark_added proc timestamp s =
    (let g = generation s + 1;
         am = AList.update proc (timestamp, g) (added_members s);
         rm = (case map_of (removed_members s) proc of
                 None \<Rightarrow> removed_members s
               | Some r \<Rightarrow>
                   if timestamp > fst r then AList.delete proc (removed_members s)
                   else removed_members s)
     in s\<lparr>generation := g, added_members := am, removed_members := rm,
          time := max (time s) g, active := insert proc (active s)\<rparr>)"

text \<open>\<open>_mark_removed\<close>: the same shape, comparing component 1, the generations.\<close>

definition mark_removed :: "proc_id \<Rightarrow> real \<Rightarrow> state \<Rightarrow> state" where
  "mark_removed proc timestamp s =
    (let g = generation s + 1;
         rm = AList.update proc (timestamp, g) (removed_members s);
         am = (case map_of (added_members s) proc of
                 None \<Rightarrow> added_members s
               | Some a \<Rightarrow>
                   if g > snd a then AList.delete proc (added_members s)
                   else added_members s)
     in s\<lparr>generation := g, removed_members := rm, added_members := am,
          time := max (time s) g, active := active s - {proc}\<rparr>)"

text \<open>
  \<open>_get_active_members\<close>: the loop over the keys of \<open>added\<close>. The read
  \<open>self._added_members[proc_id]\<close> is of a key the loop took from that dictionary, so the
  \<open>None\<close> branch of that lookup is never taken (lemma \<open>key_lookup\<close> below).
\<close>

fun get_active_loop :: "proc_id list \<Rightarrow> register \<Rightarrow> register \<Rightarrow> proc_id set \<Rightarrow> proc_id set" where
  "get_active_loop [] am rm act = act"
| "get_active_loop (proc # ps) am rm act =
     get_active_loop ps am rm
       (case map_of rm proc of
          None \<Rightarrow> insert proc act
        | Some removed_entry \<Rightarrow>
            (case map_of am proc of
               None \<Rightarrow> act
             | Some added_entry \<Rightarrow>
                 if snd added_entry > snd removed_entry then insert proc act else act))"

definition get_active_members :: "state \<Rightarrow> proc_id set" where
  "get_active_members s =
     get_active_loop (map fst (added_members s)) (added_members s) (removed_members s) {}"

text \<open>\<open>_merge_crdt_sample\<close>: the body of the first loop, of the second loop, and the method.\<close>

definition merge_added_entry :: "proc_id \<times> sample_entry \<Rightarrow> state \<Rightarrow> state" where
  "merge_added_entry item s =
    (let proc = fst item; data = snd item;
         ts = (case entry_timestamp data of None \<Rightarrow> 0 | Some t \<Rightarrow> t);
         gen = (case entry_generation data of None \<Rightarrow> 0 | Some g \<Rightarrow> g);
         current_gen = snd (dict_get (added_members s) proc (0, -1))
     in if gen > current_gen then
          s\<lparr>added_members := AList.update proc (ts, gen) (added_members s),
            removed_members :=
              (case map_of (removed_members s) proc of
                 None \<Rightarrow> removed_members s
               | Some r \<Rightarrow>
                   if snd r < gen then AList.delete proc (removed_members s)
                   else removed_members s)\<rparr>
        else s)"

definition merge_removed_entry :: "proc_id \<times> sample_entry \<Rightarrow> state \<Rightarrow> state" where
  "merge_removed_entry item s =
    (let proc = fst item; data = snd item;
         ts = (case entry_timestamp data of None \<Rightarrow> 0 | Some t \<Rightarrow> t);
         gen = (case entry_generation data of None \<Rightarrow> 0 | Some g \<Rightarrow> g);
         current_gen = snd (dict_get (removed_members s) proc (0, -1))
     in if gen > current_gen then
          s\<lparr>removed_members := AList.update proc (ts, gen) (removed_members s),
            added_members :=
              (case map_of (added_members s) proc of
                 None \<Rightarrow> added_members s
               | Some a \<Rightarrow>
                   if snd a < gen then AList.delete proc (added_members s)
                   else added_members s)\<rparr>
        else s)"

definition merge_crdt_sample :: "sample \<Rightarrow> sample \<Rightarrow> int \<Rightarrow> state \<Rightarrow> state" where
  "merge_crdt_sample added_sample removed_sample time_value s =
    (let s1 = s\<lparr>time := max (time s) time_value\<rparr>;
         s2 = fold merge_added_entry added_sample s1;
         s3 = fold merge_removed_entry removed_sample s2
     in s3\<lparr>active := get_active_members s3\<rparr>)"

subsection \<open>Sampler\<close>

text \<open>
  \<open>_serialize_sample\<close>: \<open>random.sample\<close> is call \<open>i\<close> of the callback; the dictionary
  comprehension writes the sampled items one by one.
\<close>

definition serialize_sample :: "env \<Rightarrow> nat \<Rightarrow> register \<Rightarrow> sample" where
  "serialize_sample e i data_dict =
    (let items = data_dict;
         sample_size = min SAMPLE_SIZE (length items);
         sampled = (if sample_size > 0 then sample_of e i items sample_size else [])
     in fold (\<lambda>(proc, (ts, gen)) d.
                AList.update proc \<lparr>entry_timestamp = Some ts, entry_generation = Some gen\<rparr> d)
             sampled [])"

text \<open>The PING and PING_ANSWER payload built from the current registers.\<close>

definition payload :: "string \<Rightarrow> env \<Rightarrow> nat \<Rightarrow> state \<Rightarrow> message" where
  "payload t e i s = (Message t)
     \<lparr>msg_added := Some (serialize_sample e i (added_members s)),
      msg_removed := Some (serialize_sample e (i + 1) (removed_members s)),
      msg_time := Some (time s)\<rparr>"

subsection \<open>Join and leave\<close>

definition start_periodic_ping :: "action list" where
  "start_periodic_ping = [SetTimer ''periodic_ping'' T]"

definition create_group :: "env \<Rightarrow> state \<Rightarrow> state \<times> action list" where
  "create_group e s =
    (let s1 = s\<lparr>joined := True\<rparr>;
         s2 = mark_added (self_id s1) (now e) s1;
         s3 = s2\<lparr>active := insert (self_id s2) (active s2)\<rparr>
     in (s3, start_periodic_ping))"

definition join_group :: "env \<Rightarrow> proc_id \<Rightarrow> state \<Rightarrow> state \<times> action list" where
  "join_group e seed s =
    (if joined s then (s, [])
     else
       let s1 = s\<lparr>joined := True\<rparr>;
           s2 = mark_added (self_id s1) (-1) s1;
           s3 = s2\<lparr>active := insert (self_id s2) (active s2)\<rparr>
       in (s3, map (\<lambda>i. Send (payload ''PING'' e (2 * i) s3) seed) [0..<K]
               @ start_periodic_ping))"

definition leave_group :: "env \<Rightarrow> state \<Rightarrow> state \<times> action list" where
  "leave_group e s =
    (if \<not> joined s then (s, [])
     else
       let s1 = s\<lparr>joined := False\<rparr>;
           s2 = mark_removed (self_id s1) (now e) s1;
           s3 = s2\<lparr>active := active s2 - {self_id s2}\<rparr>
       in (s3, [CancelTimer ''periodic_ping'']))"

subsection \<open>Probe scheduler\<close>

definition periodic_ping :: "env \<Rightarrow> state \<Rightarrow> state \<times> action list" where
  "periodic_ping e s =
    (if \<not> joined s \<or> active s = {} then (s, [SetTimer ''periodic_ping'' T])
     else
       let candidates = filter (\<lambda>p. p \<noteq> self_id s) (set_iter e (active s))
       in if candidates = [] then (s, [SetTimer ''periodic_ping'' T])
          else
            let target = choice e candidates;
                s1 = s\<lparr>waiting_answer := AList.update target 1 (waiting_answer s)\<rparr>;
                msg = payload ''PING'' e 0 s1
            in (s1, [Send msg target, SetTimer (''ping_'' @ target) (T * S),
                     SetTimer ''periodic_ping'' T]))"

definition ping_with_retransmitters :: "env \<Rightarrow> proc_id \<Rightarrow> state \<Rightarrow> action list" where
  "ping_with_retransmitters e target s =
    (let candidates = filter (\<lambda>p. p \<noteq> self_id s \<and> p \<noteq> target) (set_iter e (active s));
         retransmitters = take (min K (length candidates)) candidates;
         msg = (payload ''PING'' e 0 s)\<lparr>msg_target := Some target\<rparr>
     in map (\<lambda>retransmitter. Send msg retransmitter) retransmitters)"

subsection \<open>Message handlers\<close>

definition on_ping :: "env \<Rightarrow> message \<Rightarrow> proc_id \<Rightarrow> state \<Rightarrow> state \<times> action list" where
  "on_ping e msg sender s =
    (let added_data = (case msg_added msg of None \<Rightarrow> [] | Some d \<Rightarrow> d);
         removed_data = (case msg_removed msg of None \<Rightarrow> [] | Some d \<Rightarrow> d);
         time_value = (case msg_time msg of None \<Rightarrow> 0 | Some t \<Rightarrow> t);
         s1 = merge_crdt_sample added_data removed_data time_value s
     in case (case msg_target msg of
                None \<Rightarrow> None
              | Some target \<Rightarrow> if target \<noteq> self_id s1 then Some target else None) of
          Some target \<Rightarrow> (s1, [Send msg target])
        | None \<Rightarrow>
            let s2 =
              (case map_of (added_members s1) sender of
                 None \<Rightarrow> mark_added sender (now e) s1
               | Some a \<Rightarrow>
                   (case map_of (removed_members s1) sender of
                      None \<Rightarrow> s1
                    | Some r \<Rightarrow>
                        let added_gen = snd (dict_get (added_members s1) sender (0, -1));
                            removed_gen = snd r;
                            s' = (if removed_gen \<ge> added_gen
                                  then mark_added sender (now e) s1 else s1)
                        in s'\<lparr>active := insert sender (active s')\<rparr>))
            in (s2, [Send (payload ''PING_ANSWER'' e 0 s2) sender]))"

definition on_ping_answer :: "env \<Rightarrow> message \<Rightarrow> proc_id \<Rightarrow> state \<Rightarrow> state \<times> action list" where
  "on_ping_answer e msg sender s =
    (let added_data = (case msg_added msg of None \<Rightarrow> [] | Some d \<Rightarrow> d);
         removed_data = (case msg_removed msg of None \<Rightarrow> [] | Some d \<Rightarrow> d);
         time_value = (case msg_time msg of None \<Rightarrow> 0 | Some t \<Rightarrow> t);
         s1 = merge_crdt_sample added_data removed_data time_value s;
         cleared = (dict_get (waiting_answer s1) sender 0 > 0);
         s2 = (if cleared
               then s1\<lparr>waiting_answer := AList.update sender 0 (waiting_answer s1)\<rparr>
               else s1);
         acts = (if cleared then [CancelTimer (''ping_'' @ sender)] else []);
         s3 = (case map_of (added_members s2) sender of
                 None \<Rightarrow> mark_added sender (now e) s2
               | Some a \<Rightarrow> s2)
     in (s3\<lparr>active := insert sender (active s3)\<rparr>, acts))"

subsection \<open>Entry points\<close>

text \<open>
  \<open>on_local_message\<close>: \<open>msg['seed']\<close> is read outside any \<open>try\<close>, so a JOIN without
  a seed raises.
\<close>

definition on_local_message :: "env \<Rightarrow> message \<Rightarrow> state \<Rightarrow> py_error + state \<times> action list" where
  "on_local_message e msg s =
    (if mtype msg = ''JOIN'' then
       (case msg_seed msg of
          None \<Rightarrow> Inl KeyError
        | Some seed \<Rightarrow>
            if seed = self_id s then Inr (create_group e s) else Inr (join_group e seed s))
     else if mtype msg = ''LEAVE'' then Inr (leave_group e s)
     else if mtype msg = ''GET_MEMBERS'' then
       (let members = set_iter e (get_active_members s)
        in Inr (s, [SendLocal ((Message ''MEMBERS'')\<lparr>msg_members := Some members\<rparr>)]))
     else Inr (s, []))"

definition on_message :: "env \<Rightarrow> message \<Rightarrow> proc_id \<Rightarrow> state \<Rightarrow> state \<times> action list" where
  "on_message e msg sender s =
    (if mtype msg = ''PING'' then on_ping e msg sender s
     else if mtype msg = ''PING_ANSWER'' then on_ping_answer e msg sender s
     else (s, []))"

definition on_timer :: "env \<Rightarrow> string \<Rightarrow> state \<Rightarrow> state \<times> action list" where
  "on_timer e timer_name s =
    (if take 5 timer_name = ''ping_'' then
       (let target = drop 5 timer_name;
            status = dict_get (waiting_answer s) target 0
        in if status = 1 then
             (let s1 = s\<lparr>waiting_answer := AList.update target 2 (waiting_answer s)\<rparr>
              in (s1, ping_with_retransmitters e target s1 @ [SetTimer timer_name (T * S)]))
           else if status = 2 then
             (let s1 = mark_removed target (now e) s
              in (s1\<lparr>waiting_answer := AList.delete target (waiting_answer s1)\<rparr>, []))
           else (s, []))
     else if timer_name = ''periodic_ping'' then periodic_ping e s
     else (s, []))"

subsection \<open>Runs of the engine\<close>

datatype event =
    Local message
  | Net message proc_id
  | Timer string

definition step :: "env \<Rightarrow> event \<Rightarrow> state \<Rightarrow> py_error + state \<times> action list" where
  "step e ev s =
    (case ev of
       Local msg \<Rightarrow> on_local_message e msg s
     | Net msg sender \<Rightarrow> Inr (on_message e msg sender s)
     | Timer name \<Rightarrow> Inr (on_timer e name s))"

text \<open>
  A run delivers events one at a time, each with what its callback draws from outside, and
  collects the calls made; it stops at the first callback that raises.
\<close>

fun run :: "(env \<times> event) list \<Rightarrow> state \<Rightarrow> py_error + state \<times> action list" where
  "run [] s = Inr (s, [])"
| "run (x # rest) s =
     (case step (fst x) (snd x) s of
        Inl err \<Rightarrow> Inl err
      | Inr r1 \<Rightarrow>
          (case run rest (fst r1) of
             Inl err \<Rightarrow> Inl err
           | Inr r2 \<Rightarrow> Inr (fst r2, snd r1 @ snd r2)))"

text \<open>
  The states an engine can be in: the one \<open>__init__\<close> builds, and every state a callback
  that returned leaves behind.
\<close>

inductive reachable :: "proc_id \<Rightarrow> state \<Rightarrow> bool" for proc where
  reach_init: "reachable proc (init proc)"
| reach_step: "reachable proc s \<Longrightarrow> step e ev s = Inr (s', acts) \<Longrightarrow> reachable proc s'"

section \<open>Notions used by the properties\<close>

text \<open>
  The active set as the design document words it: the keys of \<open>added\<close> that are not keys of
  \<open>removed\<close>, or whose added generation is above their removed generation.
\<close>

definition active_members_spec :: "state \<Rightarrow> proc_id set" where
  "active_members_spec s =
     {p \<in> fst ` set (added_members s).
        p \<notin> fst ` set (removed_members s) \<or>
        snd (the (map_of (added_members s) p)) > snd (the (map_of (removed_members s) p))}"

text \<open>
  What the \<open>try\<close>/\<open>except\<close> blocks at the head of \<open>_on_ping\<close> and \<open>_on_ping_answer\<close> leave in
  \<open>added_data\<close>, \<open>removed_data\<close> and \<open>time_value\<close>.
\<close>

definition added_or_empty :: "message \<Rightarrow> sample" where
  "added_or_empty msg = (case msg_added msg of None \<Rightarrow> [] | Some d \<Rightarrow> d)"

definition removed_or_empty :: "message \<Rightarrow> sample" where
  "removed_or_empty msg = (case msg_removed msg of None \<Rightarrow> [] | Some d \<Rightarrow> d)"

definition time_or_zero :: "message \<Rightarrow> int" where
  "time_or_zero msg = (case msg_time msg of None \<Rightarrow> 0 | Some t \<Rightarrow> t)"

text \<open>A message with the three defaults written into the fields that are missing.\<close>

definition with_defaults :: "message \<Rightarrow> message" where
  "with_defaults msg = msg\<lparr>msg_added := Some (added_or_empty msg),
     msg_removed := Some (removed_or_empty msg), msg_time := Some (time_or_zero msg)\<rparr>"

text \<open>
  The two later parts of \<open>_on_ping\<close>, named: the target a PING is relayed to, if any, and
  the learn-sender step applied to the merged state.
\<close>

definition relay_target :: "message \<Rightarrow> state \<Rightarrow> proc_id option" where
  "relay_target msg s =
     (case msg_target msg of
        None \<Rightarrow> None
      | Some target \<Rightarrow> if target \<noteq> self_id s then Some target else None)"

definition refresh_sender :: "env \<Rightarrow> proc_id \<Rightarrow> state \<Rightarrow> state" where
  "refresh_sender e sender s1 =
     (case map_of (added_members s1) sender of
        None \<Rightarrow> mark_added sender (now e) s1
      | Some a \<Rightarrow>
          (case map_of (removed_members s1) sender of
             None \<Rightarrow> s1
           | Some r \<Rightarrow>
               let s' = (if snd r \<ge> snd a then mark_added sender (now e) s1 else s1)
               in s'\<lparr>active := insert sender (active s')\<rparr>))"

text \<open>The helpers an indirect probe of \<open>target\<close> is sent to.\<close>

definition retransmitters_of :: "env \<Rightarrow> proc_id \<Rightarrow> state \<Rightarrow> proc_id list" where
  "retransmitters_of e target s =
     take K (filter (\<lambda>p. p \<noteq> self_id s \<and> p \<noteq> target) (set_iter e (active s)))"

text \<open>A call \<open>ctx.set_timer(name, delay)\<close> for the given name, with any delay.\<close>

definition arms_timer :: "string \<Rightarrow> action \<Rightarrow> bool" where
  "arms_timer name a = (case a of SetTimer n d \<Rightarrow> n = name | _ \<Rightarrow> False)"

subsection \<open>One process id at a time\<close>

text \<open>
  The two registers seen at one process id: the entry of \<open>added\<close> and the entry of
  \<open>removed\<close>, each possibly absent.
\<close>

type_synonym key_view = "tag option \<times> tag option"

definition key_view :: "state \<Rightarrow> proc_id \<Rightarrow> key_view" where
  "key_view s p = (map_of (added_members s) p, map_of (removed_members s) p)"

text \<open>
  The tag a merge loop reads from one value of a sample, with \<open>data.get(key, 0)\<close> for both
  components.
\<close>

definition entry_tag :: "sample_entry \<Rightarrow> tag" where
  "entry_tag data =
     (case entry_timestamp data of None \<Rightarrow> 0 | Some t \<Rightarrow> t,
      case entry_generation data of None \<Rightarrow> 0 | Some g \<Rightarrow> g)"

text \<open>
  The generation of an entry, \<open>-1\<close> when it is absent (the default \<open>(0, -1)\<close> of the merge
  loops), and an entry with the test that deletes it: it goes when its generation is below
  \<open>g\<close>.
\<close>

definition gen_or :: "tag option \<Rightarrow> int" where
  "gen_or x = (case x of None \<Rightarrow> -1 | Some t \<Rightarrow> snd t)"

definition drop_below :: "int \<Rightarrow> tag option \<Rightarrow> tag option" where
  "drop_below g x = (case x of None \<Rightarrow> None | Some t \<Rightarrow> if snd t < g then None else Some t)"

text \<open>
  What one iteration of the first and of the second merge loop do to the registers at the
  process id of the item (lemmas \<open>key_view_merge_added_entry\<close> and
  \<open>key_view_merge_removed_entry\<close>), and the test of \<open>_get_active_members\<close>.
\<close>

definition add_key :: "tag \<Rightarrow> key_view \<Rightarrow> key_view" where
  "add_key t v = (if snd t > gen_or (fst v) then (Some t, drop_below (snd t) (snd v)) else v)"

definition rem_key :: "tag \<Rightarrow> key_view \<Rightarrow> key_view" where
  "rem_key t v = (if snd t > gen_or (snd v) then (drop_below (snd t) (fst v), Some t) else v)"

definition key_active :: "key_view \<Rightarrow> bool" where
  "key_active v = (case fst v of None \<Rightarrow> False
     | Some a \<Rightarrow> (case snd v of None \<Rightarrow> True | Some r \<Rightarrow> snd a > snd r))"

text \<open>
  The tags a sample holds for one process id, in order, and a whole merge at that id.
\<close>

definition tags_at :: "proc_id \<Rightarrow> sample \<Rightarrow> tag list" where
  "tags_at p xs = map (\<lambda>x. entry_tag (snd x)) (filter (\<lambda>x. fst x = p) xs)"

definition key_merge :: "tag list \<Rightarrow> tag list \<Rightarrow> key_view \<Rightarrow> key_view" where
  "key_merge as rs v = fold rem_key rs (fold add_key as v)"

text \<open>
  Stored generations are never negative in a run (lemma \<open>reachable_gens_nonneg\<close>): a local mark
  writes a counter that starts at 0 and is incremented first, a merge writes a generation
  above the stored one or above \<open>-1\<close>.
\<close>

definition gens_nonneg :: "state \<Rightarrow> bool" where
  "gens_nonneg s = (list_all (\<lambda>x. 0 \<le> snd (snd x)) (added_members s) \<and>
                    list_all (\<lambda>x. 0 \<le> snd (snd x)) (removed_members s))"

definition gen_inv :: "state \<Rightarrow> bool" where
  "gen_inv s = (gens_nonneg s \<and> 0 \<le> generation s)"

definition key_ok :: "key_view \<Rightarrow> bool" where
  "key_ok v = ((case fst v of None \<Rightarrow> True | Some a \<Rightarrow> 0 \<le> snd a) \<and>
               (case snd v of None \<Rightarrow> True | Some r \<Rightarrow> 0 \<le> snd r))"

text \<open>
  The highest generation at a process id and the register that holds it, as one number:
  \<open>2 * g\<close> when \<open>added\<close> holds it alone, \<open>2 * g + 1\<close> when \<open>removed\<close> holds it. A merge
  step can only raise it (lemmas \<open>add_key_rank\<close>, \<open>rem_key_rank\<close>); \<open>raise\<close> is what a whole
  merge does to it.
\<close>

definition rank :: "key_view \<Rightarrow> int" where
  "rank v = (if gen_or (fst v) > gen_or (snd v) then 2 * gen_or (fst v) else 2 * gen_or (snd v) + 1)"

definition raise :: "tag list \<Rightarrow> tag list \<Rightarrow> int \<Rightarrow> int" where
  "raise as rs m = fold (\<lambda>t m. max m (2 * snd t + 1)) rs (fold (\<lambda>t m. max m (2 * snd t)) as m)"

subsection \<open>Concrete inputs\<close>

text \<open>
  An environment for the examples: the clock reads 7, \<open>random.choice\<close> takes the first
  candidate, \<open>random.sample\<close> the first \<open>k\<close> items, and a set over the processes
  \<open>a\<close> to \<open>d\<close> is iterated in alphabetical order.
\<close>

definition env0 :: env where
  "env0 = \<lparr>now = 7, choice = (\<lambda>xs. case xs of [] \<Rightarrow> [] | x # _ \<Rightarrow> x),
     sample_of = (\<lambda>i xs k. take k xs),
     set_iter = (\<lambda>A. filter (\<lambda>p. p \<in> A) [''a'', ''b'', ''c'', ''d''])\<rparr>"

text \<open>A state of process \<open>a\<close> in which \<open>b\<close> and \<open>c\<close> are in both registers.\<close>

definition st1 :: state where
  "st1 = (init ''a'')\<lparr>added_members := [(''a'', (1, 1)), (''b'', (2, 3)), (''c'', (2, 4))],
     removed_members := [(''b'', (3, 5)), (''c'', (0, 2))]\<rparr>"

text \<open>The same state with four cached members, \<open>b\<close> awaiting a direct answer and \<open>c\<close> an indirect one.\<close>

definition st2 :: state where
  "st2 = st1\<lparr>active := {''a'', ''b'', ''c'', ''d''}, waiting_answer := [(''b'', 1), (''c'', 2)]\<rparr>"

definition ping_to :: "proc_id option \<Rightarrow> message" where
  "ping_to tg = (Message ''PING'')\<lparr>msg_target := tg\<rparr>"

definition join_msg :: "proc_id \<Rightarrow> message" where
  "join_msg seed = (Message ''JOIN'')\<lparr>msg_seed := Some seed\<rparr>"

text \<open>An environment whose \<open>random.choice\<close> takes the last candidate.\<close>

definition env1 :: env where
  "env1 = env0\<lparr>choice := last\<rparr>"

text \<open>Process \<open>a\<close> after \<open>JOIN {seed: a}\<close> at time 7.\<close>

definition joined_a :: state where
  "joined_a = \<lparr>self_id = ''a'', joined = True, time = 1, added_members = [(''a'', (7, 1))],
     removed_members = [], waiting_answer = [], active = {''a''}, generation = 1\<rparr>"

text \<open>A PING whose added sample tells of a process \<open>c\<close> with generation 100.\<close>

definition gossip_c :: message where
  "gossip_c = (Message ''PING'')\<lparr>msg_added :=
     Some [(''c'', \<lparr>entry_timestamp = Some 0, entry_generation = Some 100\<rparr>)]\<rparr>"

text \<open>
  Process \<open>a\<close> after that JOIN and that PING from \<open>b\<close>, with \<open>c\<close> under suspicion in the
  given state.
\<close>

definition st_susp :: "int \<Rightarrow> state" where
  "st_susp status = \<lparr>self_id = ''a'', joined = True, time = 2,
     added_members = [(''a'', (7, 1)), (''c'', (0, 100)), (''b'', (7, 2))],
     removed_members = [], waiting_answer = [(''c'', status)], active = {''a'', ''b'', ''c''},
     generation = 2\<rparr>"

text \<open>
  A sample that holds process \<open>c\<close> with timestamp 0 and the given generation, and a PING carrying two samples.
\<close>

definition sample_c :: "int \<Rightarrow> sample" where
  "sample_c g = [(''c'', \<lparr>entry_timestamp = Some 0, entry_generation = Some g\<rparr>)]"

definition gossip :: "sample \<Rightarrow> sample \<Rightarrow> message" where
  "gossip A R = (Message ''PING'')\<lparr>msg_added := Some A, msg_removed := Some R\<rparr>"

text \<open>
  Process \<open>a\<close> after its JOIN, a PING from \<open>b\<close> whose removed sample holds \<open>c\<close> with
  generation 7, and a PING from \<open>b\<close> whose added sample holds \<open>c\<close> with generation 5.
\<close>

definition st_both :: state where
  "st_both = \<lparr>self_id = ''a'', joined = True, time = 2,
     added_members = [(''a'', (7, 1)), (''b'', (7, 2)), (''c'', (0, 5))],
     removed_members = [(''c'', (0, 7))], waiting_answer = [], active = {''a'', ''b''},
     generation = 2\<rparr>"

text \<open>A state no run reaches: both entries of \<open>c\<close> carry negative generations.\<close>

definition st_neg :: state where
  "st_neg = (init ''a'')\<lparr>added_members := [(''c'', (0, - 5))],
     removed_members := [(''c'', (0, - 7))]\<rparr>"

section \<open>Properties\<close>

lemma key_lookup: "p \<in> set (map fst d) \<Longrightarrow> map_of d p \<noteq> None"
  by (induction d) auto

lemma in_keys_iff: "p \<in> fst ` set d \<longleftrightarrow> map_of d p \<noteq> None"
  by (simp add: map_of_eq_None_iff)

subsection \<open>What each operation leaves alone\<close>

lemma merge_added_entry_frame [simp]:
  "self_id (merge_added_entry x s) = self_id s"
  "joined (merge_added_entry x s) = joined s"
  "time (merge_added_entry x s) = time s"
  "waiting_answer (merge_added_entry x s) = waiting_answer s"
  "generation (merge_added_entry x s) = generation s"
  "active (merge_added_entry x s) = active s"
  by (simp_all add: merge_added_entry_def Let_def)

lemma merge_removed_entry_frame [simp]:
  "self_id (merge_removed_entry x s) = self_id s"
  "joined (merge_removed_entry x s) = joined s"
  "time (merge_removed_entry x s) = time s"
  "waiting_answer (merge_removed_entry x s) = waiting_answer s"
  "generation (merge_removed_entry x s) = generation s"
  "active (merge_removed_entry x s) = active s"
  by (simp_all add: merge_removed_entry_def Let_def)

lemma fold_merge_added_frame [simp]:
  "self_id (fold merge_added_entry xs s) = self_id s"
  "joined (fold merge_added_entry xs s) = joined s"
  "time (fold merge_added_entry xs s) = time s"
  "waiting_answer (fold merge_added_entry xs s) = waiting_answer s"
  "generation (fold merge_added_entry xs s) = generation s"
  by (induction xs arbitrary: s; simp)+

lemma fold_merge_removed_frame [simp]:
  "self_id (fold merge_removed_entry xs s) = self_id s"
  "joined (fold merge_removed_entry xs s) = joined s"
  "time (fold merge_removed_entry xs s) = time s"
  "waiting_answer (fold merge_removed_entry xs s) = waiting_answer s"
  "generation (fold merge_removed_entry xs s) = generation s"
  by (induction xs arbitrary: s; simp)+

lemma merge_crdt_sample_frame [simp]:
  "self_id (merge_crdt_sample A R t s) = self_id s"
  "joined (merge_crdt_sample A R t s) = joined s"
  "time (merge_crdt_sample A R t s) = max (time s) t"
  "waiting_answer (merge_crdt_sample A R t s) = waiting_answer s"
  "generation (merge_crdt_sample A R t s) = generation s"
  by (simp_all add: merge_crdt_sample_def Let_def)

lemma mark_added_frame [simp]:
  "self_id (mark_added p ts s) = self_id s"
  "joined (mark_added p ts s) = joined s"
  "waiting_answer (mark_added p ts s) = waiting_answer s"
  "generation (mark_added p ts s) = generation s + 1"
  "active (mark_added p ts s) = insert p (active s)"
  "map_of (added_members (mark_added p ts s)) p = Some (ts, generation s + 1)"
  by (simp_all add: mark_added_def Let_def update_conv')

lemma mark_removed_frame [simp]:
  "self_id (mark_removed p ts s) = self_id s"
  "joined (mark_removed p ts s) = joined s"
  "waiting_answer (mark_removed p ts s) = waiting_answer s"
  "generation (mark_removed p ts s) = generation s + 1"
  "active (mark_removed p ts s) = active s - {p}"
  "map_of (removed_members (mark_removed p ts s)) p = Some (ts, generation s + 1)"
  by (simp_all add: mark_removed_def Let_def update_conv')

subsection \<open>The active-set view\<close>

lemma get_active_loop_eq:
  "get_active_loop ps am rm act = act \<union>
     {p \<in> set ps. case map_of rm p of None \<Rightarrow> True
        | Some r \<Rightarrow> (case map_of am p of None \<Rightarrow> False | Some a \<Rightarrow> snd a > snd r)}"
  by (induction ps arbitrary: act) (auto split: option.splits)

lemma get_active_members_spec: "get_active_members s = active_members_spec s"
proof (rule set_eqI)
  fix p
  show "p \<in> get_active_members s \<longleftrightarrow> p \<in> active_members_spec s"
    unfolding get_active_members_def active_members_spec_def get_active_loop_eq
    by (cases "map_of (added_members s) p"; cases "map_of (removed_members s) p")
       (auto simp: in_keys_iff)
qed

text \<open>
  C1. In every state, \<open>_get_active_members\<close> returns exactly the keys \<open>p\<close> of \<open>added\<close>
  that are not keys of \<open>removed\<close> or have \<open>added[p].generation > removed[p].generation\<close>,
  and a GET_MEMBERS command changes nothing and replies with one MEMBERS message listing
  that set.
\<close>

theorem get_members_exact:
  "get_active_members s = active_members_spec s \<and>
   (mtype msg = ''GET_MEMBERS'' \<longrightarrow>
      on_local_message e msg s =
        Inr (s, [SendLocal ((Message ''MEMBERS'')
                   \<lparr>msg_members := Some (set_iter e (active_members_spec s))\<rparr>)]))"
  by (simp add: get_active_members_spec [symmetric] on_local_message_def)

theorem get_members_exact_witness:
  "get_active_members st1 = {''a'', ''c''} \<and> active_members_spec st1 = {''a'', ''c''} \<and>
   on_local_message env0 (Message ''GET_MEMBERS'') st1 =
     Inr (st1, [SendLocal ((Message ''MEMBERS'')\<lparr>msg_members := Some [''a'', ''c'']\<rparr>)])"
proof -
  have spec: "active_members_spec st1 = {''a'', ''c''}"
    by (auto simp add: active_members_spec_def st1_def init_def)
  have ty: "mtype (Message ''GET_MEMBERS'') = ''GET_MEMBERS''"
    by (simp add: Message_def)
  have it: "set_iter env0 {''a'', ''c''} = [''a'', ''c'']"
    by (simp add: env0_def)
  from get_members_exact [of st1 "Message ''GET_MEMBERS''" env0] spec ty it
  show ?thesis by simp
qed

subsection \<open>The handlers, restated\<close>

lemma on_ping_alt:
  "on_ping e msg sender s =
     (let s1 = merge_crdt_sample (added_or_empty msg) (removed_or_empty msg) (time_or_zero msg) s
      in case relay_target msg s of
           Some target \<Rightarrow> (s1, [Send msg target])
         | None \<Rightarrow> (refresh_sender e sender s1,
                     [Send (payload ''PING_ANSWER'' e 0 (refresh_sender e sender s1)) sender]))"
  unfolding on_ping_def added_or_empty_def removed_or_empty_def time_or_zero_def
    refresh_sender_def relay_target_def Let_def dict_get_def
  by (simp cong: option.case_cong split: option.split)


lemma with_defaults_simps [simp]:
  "added_or_empty (with_defaults msg) = added_or_empty msg"
  "removed_or_empty (with_defaults msg) = removed_or_empty msg"
  "time_or_zero (with_defaults msg) = time_or_zero msg"
  "msg_target (with_defaults msg) = msg_target msg"
  "relay_target (with_defaults msg) s = relay_target msg s"
  by (simp_all add: with_defaults_def added_or_empty_def removed_or_empty_def time_or_zero_def
        relay_target_def)

lemma on_ping_answer_alt:
  "on_ping_answer e msg sender s =
     (let s1 = merge_crdt_sample (added_or_empty msg) (removed_or_empty msg) (time_or_zero msg) s;
          cleared = (dict_get (waiting_answer s1) sender 0 > 0);
          s2 = (if cleared
                then s1\<lparr>waiting_answer := AList.update sender 0 (waiting_answer s1)\<rparr>
                else s1);
          s3 = (case map_of (added_members s2) sender of
                  None \<Rightarrow> mark_added sender (now e) s2
                | Some a \<Rightarrow> s2)
      in (s3\<lparr>active := insert sender (active s3)\<rparr>,
          if cleared then [CancelTimer (''ping_'' @ sender)] else []))"
  unfolding on_ping_answer_def added_or_empty_def removed_or_empty_def time_or_zero_def Let_def
  by simp

lemma refresh_sender_added: "map_of (added_members (refresh_sender e sender s)) sender \<noteq> None"
  by (simp add: refresh_sender_def Let_def split: option.split)

lemma relay_target_None:
  "relay_target msg s = None \<longleftrightarrow> msg_target msg = None \<or> msg_target msg = Some (self_id s)"
  by (simp add: relay_target_def split: option.split)

subsection \<open>Indirect probes\<close>

text \<open>
  C6. A PING whose \<open>target\<close> field names another process is merged and then relayed
  unchanged to that target: the state is the merged one (no learn-sender step) and the only
  message sent is the relayed PING (no PING_ANSWER). A PING whose target is the receiver
  itself is handled as the same PING without a target, and is answered with a
  PING_ANSWER to the sender.
\<close>

theorem ping_relay:
  "(msg_target msg = Some tg \<and> tg \<noteq> self_id s \<longrightarrow>
      on_ping e msg sender s =
        (merge_crdt_sample (added_or_empty msg) (removed_or_empty msg) (time_or_zero msg) s,
         [Send msg tg])) \<and>
   (msg_target msg = Some (self_id s) \<longrightarrow>
      on_ping e msg sender s = on_ping e (msg\<lparr>msg_target := None\<rparr>) sender s \<and>
      snd (on_ping e msg sender s) =
        [Send (payload ''PING_ANSWER'' e 0 (fst (on_ping e msg sender s))) sender])"
  by (simp add: on_ping_def Let_def added_or_empty_def removed_or_empty_def time_or_zero_def)

theorem ping_relay_witness:
  "msg_target (ping_to (Some ''c'')) = Some ''c'' \<and> ''c'' \<noteq> self_id st1 \<and>
   on_ping env0 (ping_to (Some ''c'')) ''b'' st1 =
     (merge_crdt_sample [] [] 0 st1, [Send (ping_to (Some ''c'')) ''c'']) \<and>
   msg_target (ping_to (Some ''a'')) = Some (self_id st1) \<and>
   on_ping env0 (ping_to (Some ''a'')) ''b'' st1 = on_ping env0 (ping_to None) ''b'' st1"
  using ping_relay [of "ping_to (Some ''c'')" "''c''" st1 env0 "''b''"]
        ping_relay [of "ping_to (Some ''a'')" "''c''" st1 env0 "''b''"]
  by (simp add: ping_to_def Message_def st1_def init_def added_or_empty_def
        removed_or_empty_def time_or_zero_def)

subsection \<open>The suspicion timer\<close>

lemma ping_with_retransmitters_eq:
  "ping_with_retransmitters e target s =
     map (Send ((payload ''PING'' e 0 s)\<lparr>msg_target := Some target\<rparr>)) (retransmitters_of e target s)"
  by (simp add: ping_with_retransmitters_def retransmitters_of_def Let_def min_def)

lemma waiting_answer_update_frame [simp]:
  "payload t e i (s\<lparr>waiting_answer := w\<rparr>) = payload t e i s"
  "retransmitters_of e target (s\<lparr>waiting_answer := w\<rparr>) = retransmitters_of e target s"
  by (simp_all add: payload_def retransmitters_of_def)

lemma retransmitters_bound: "length (retransmitters_of e target s) \<le> K"
  by (simp add: retransmitters_of_def)

lemma retransmitters_subset:
  "set (set_iter e (active s)) \<subseteq> active s \<Longrightarrow>
   set (retransmitters_of e target s) \<subseteq> active s - {self_id s, target}"
  by (auto simp: retransmitters_of_def dest!: in_set_takeD)

text \<open>
  C7. When the timer \<open>ping_<target>\<close> fires and the target awaits a direct answer
  (status 1), the status becomes 2, one PING carrying the payload and \<open>target\<close> goes to each
  of at most \<open>K\<close> helpers, which are cached active members other than the engine and the target,
  and the timer is set again for \<open>T * S\<close>. When the target awaits an indirect answer (status 2),
  the target is marked removed at the current time, its suspicion entry is deleted, and
  nothing is sent.
\<close>

theorem suspicion_timer:
  "(dict_get (waiting_answer s) target 0 = 1 \<longrightarrow>
      on_timer e (''ping_'' @ target) s =
        (s\<lparr>waiting_answer := AList.update target 2 (waiting_answer s)\<rparr>,
         map (Send ((payload ''PING'' e 0 s)\<lparr>msg_target := Some target\<rparr>))
             (retransmitters_of e target s)
         @ [SetTimer (''ping_'' @ target) (T * S)]) \<and>
      length (retransmitters_of e target s) \<le> K \<and>
      (set (set_iter e (active s)) \<subseteq> active s \<longrightarrow>
         set (retransmitters_of e target s) \<subseteq> active s - {self_id s, target})) \<and>
   (dict_get (waiting_answer s) target 0 = 2 \<longrightarrow>
      on_timer e (''ping_'' @ target) s =
        ((mark_removed target (now e) s)
           \<lparr>waiting_answer := AList.delete target (waiting_answer s)\<rparr>, []) \<and>
      map_of (AList.delete target (waiting_answer s)) target = None)"
  by (simp add: on_timer_def Let_def ping_with_retransmitters_eq retransmitters_bound
        retransmitters_subset delete_conv')

theorem suspicion_timer_witness:
  "dict_get (waiting_answer st2) ''b'' 0 = 1 \<and>
   set (set_iter env0 (active st2)) \<subseteq> active st2 \<and>
   retransmitters_of env0 ''b'' st2 = [''c'', ''d''] \<and>
   on_timer env0 ''ping_b'' st2 =
     (st2\<lparr>waiting_answer := [(''b'', 2), (''c'', 2)]\<rparr>,
      [Send ((payload ''PING'' env0 0 st2)\<lparr>msg_target := Some ''b''\<rparr>) ''c'',
       Send ((payload ''PING'' env0 0 st2)\<lparr>msg_target := Some ''b''\<rparr>) ''d'',
       SetTimer ''ping_b'' 15]) \<and>
   dict_get (waiting_answer st2) ''c'' 0 = 2 \<and>
   on_timer env0 ''ping_c'' st2 =
     ((mark_removed ''c'' 7 st2)\<lparr>waiting_answer := [(''b'', 1)]\<rparr>, [])"
proof -
  have a: "dict_get (waiting_answer st2) ''b'' 0 = 1" "dict_get (waiting_answer st2) ''c'' 0 = 2"
    by (simp_all add: dict_get_def st2_def)
  have b: "set (set_iter env0 (active st2)) \<subseteq> active st2"
    by (simp add: st2_def env0_def)
  have c: "retransmitters_of env0 ''b'' st2 = [''c'', ''d'']"
    by (simp add: retransmitters_of_def st2_def st1_def init_def env0_def K_def)
  have d: "AList.update ''b'' 2 (waiting_answer st2) = [(''b'', 2), (''c'', 2)]"
          "AList.delete ''c'' (waiting_answer st2) = [(''b'', 1)]"
    by (simp_all add: st2_def)
  have e: "now env0 = 7" "T * S = 15"
    by (simp_all add: env0_def T_def S_def)
  from suspicion_timer [of st2 "''b''" env0] suspicion_timer [of st2 "''c''" env0] a b c d e
  show ?thesis by simp
qed

subsection \<open>Local removal\<close>

lemma step_join:
  "step env0 (Local (join_msg ''a'')) (init ''a'') = Inr (joined_a, [SetTimer ''periodic_ping'' 5])"
  by (simp add: step_def on_local_message_def join_msg_def Message_def init_def create_group_def
      mark_added_def joined_a_def start_periodic_ping_def T_def env0_def Let_def)

lemma step_gossip:
  "fst (on_message env0 gossip_c ''b'' joined_a) = (st_susp 0)\<lparr>waiting_answer := []\<rparr>"
  by (simp add: on_message_def on_ping_def gossip_c_def Message_def merge_crdt_sample_def
      merge_added_entry_def dict_get_def get_active_members_def mark_added_def joined_a_def
      st_susp_def env0_def Let_def insert_commute)

lemma step_probe:
  "fst (on_timer env1 ''periodic_ping'' ((st_susp 0)\<lparr>waiting_answer := []\<rparr>)) = st_susp 1"
  by (simp add: on_timer_def periodic_ping_def st_susp_def env1_def env0_def Let_def)

lemma step_direct_timeout: "fst (on_timer env0 ''ping_c'' (st_susp 1)) = st_susp 2"
  by (simp add: on_timer_def dict_get_def st_susp_def Let_def)

lemma reachable_joined_a: "reachable ''a'' joined_a"
  using reach_step [OF reach_init step_join] .

text \<open>
  The state \<open>st_susp 2\<close> arises in a run: \<open>a\<close> creates the group, receives the PING
  \<open>gossip_c\<close> from \<open>b\<close>, probes \<open>c\<close>, and the probe's timer fires once.
\<close>

lemma reachable_st_susp: "reachable ''a'' (st_susp 2)"
proof -
  have "reachable ''a'' (fst (on_message env0 gossip_c ''b'' joined_a))"
    by (rule reach_step [OF reachable_joined_a, of env0 "Net gossip_c ''b''" _
          "snd (on_message env0 gossip_c ''b'' joined_a)"])
       (simp add: step_def)
  then have r2: "reachable ''a'' ((st_susp 0)\<lparr>waiting_answer := []\<rparr>)"
    by (simp only: step_gossip)
  have "reachable ''a'' (fst (on_timer env1 ''periodic_ping'' ((st_susp 0)\<lparr>waiting_answer := []\<rparr>)))"
    by (rule reach_step [OF r2, of env1 "Timer ''periodic_ping''" _
          "snd (on_timer env1 ''periodic_ping'' ((st_susp 0)\<lparr>waiting_answer := []\<rparr>))"])
       (simp add: step_def)
  then have r3: "reachable ''a'' (st_susp 1)"
    by (simp only: step_probe)
  have "reachable ''a'' (fst (on_timer env0 ''ping_c'' (st_susp 1)))"
    by (rule reach_step [OF r3, of env0 "Timer ''ping_c''" _
          "snd (on_timer env0 ''ping_c'' (st_susp 1))"])
       (simp add: step_def)
  then show ?thesis
    by (simp only: step_direct_timeout)
qed

text \<open>
  C10 as stated fails. In the state \<open>st_susp 2\<close> the entry \<open>added[c]\<close> came from a peer and
  has generation 100, while the local counter is 2: when the timer \<open>ping_c\<close> fires again,
  \<open>_mark_removed\<close> writes \<open>removed[c]\<close> with generation 3 and leaves \<open>added[c]\<close> in place. The
  cached active set drops \<open>c\<close>, and \<open>_get_active_members\<close> still returns it.
\<close>

theorem mark_removed_keeps_added_counterexample:
  "map_of (added_members (mark_removed ''c'' 7 (st_susp 2))) ''c'' = Some (0, 100) \<and>
   fst (on_timer env0 ''ping_c'' (st_susp 2)) =
     (mark_removed ''c'' 7 (st_susp 2))\<lparr>waiting_answer := []\<rparr> \<and>
   ''c'' \<notin> active (fst (on_timer env0 ''ping_c'' (st_susp 2))) \<and>
   ''c'' \<in> get_active_members (fst (on_timer env0 ''ping_c'' (st_susp 2)))"
  by (simp add: on_timer_def dict_get_def mark_removed_def st_susp_def env0_def Let_def
        get_active_members_def)

text \<open>
  C10, amended. After \<open>_mark_removed(p, ts)\<close> the process \<open>p\<close> is not in the cached active
  set and \<open>removed[p]\<close> is \<open>(ts, G + 1)\<close> for the old counter \<open>G\<close>. The entry \<open>added[p]\<close> is
  absent afterwards when it was absent before or its generation was at most \<open>G\<close>; an entry
  with a generation above \<open>G\<close> stays as it was.
\<close>

theorem mark_removed_effect:
  "p \<notin> active (mark_removed p ts s) \<and>
   map_of (removed_members (mark_removed p ts s)) p = Some (ts, generation s + 1) \<and>
   map_of (added_members (mark_removed p ts s)) p =
     (case map_of (added_members s) p of
        None \<Rightarrow> None
      | Some a \<Rightarrow> if snd a \<le> generation s then None else Some a)"
  by (auto simp add: mark_removed_def Let_def update_conv' delete_conv' split: option.splits)

theorem mark_removed_effect_witness:
  "map_of (added_members (mark_removed ''a'' 9 joined_a)) ''a'' = None \<and>
   map_of (removed_members (mark_removed ''a'' 9 joined_a)) ''a'' = Some (9, 2) \<and>
   ''a'' \<notin> active (mark_removed ''a'' 9 joined_a) \<and>
   map_of (added_members (mark_removed ''c'' 7 (st_susp 2))) ''c'' = Some (0, 100)"
  using mark_removed_effect [of "''a''" 9 joined_a] mark_removed_effect [of "''c''" 7 "st_susp 2"]
  by (simp add: joined_a_def st_susp_def)

subsection \<open>Stale suspicion timers\<close>

lemma on_ping_answer_waiting:
  "waiting_answer (fst (on_ping_answer e msg sender s)) =
     (if 0 < dict_get (waiting_answer s) sender 0
      then AList.update sender 0 (waiting_answer s) else waiting_answer s)"
  by (simp add: on_ping_answer_alt Let_def split: option.split)

lemma on_timer_idle:
  "dict_get (waiting_answer s) target 0 = 0 \<Longrightarrow> on_timer e (''ping_'' @ target) s = (s, [])"
  by (simp add: on_timer_def Let_def)

lemma refresh_sender_waiting [simp]:
  "waiting_answer (refresh_sender e sender s) = waiting_answer s"
  by (simp add: refresh_sender_def Let_def split: option.split)

lemma on_ping_waiting: "waiting_answer (fst (on_ping e msg sender s)) = waiting_answer s"
  by (simp add: on_ping_alt Let_def split: option.split)

lemma on_local_message_waiting:
  "on_local_message e msg s = Inr (s', acts) \<Longrightarrow> waiting_answer s' = waiting_answer s"
  by (auto simp: on_local_message_def create_group_def join_group_def leave_group_def Let_def
        split: option.splits if_splits)

lemma on_ping_answer_keeps_cleared:
  assumes "map_of (waiting_answer s) p = Some 0"
  shows "map_of (waiting_answer (fst (on_ping_answer e msg sender s))) p = Some 0"
proof (cases "sender = p")
  case True
  with assms have "dict_get (waiting_answer s) sender 0 = 0"
    by (simp add: dict_get_def)
  with assms show ?thesis
    by (simp add: on_ping_answer_waiting)
next
  case False
  with assms show ?thesis
    by (simp add: on_ping_answer_waiting update_conv')
qed

lemma periodic_ping_keeps_cleared:
  assumes "map_of (waiting_answer s) p = Some 0"
    and "\<not> list_ex (arms_timer (''ping_'' @ p)) (snd (periodic_ping e s))"
  shows "map_of (waiting_answer (fst (periodic_ping e s))) p = Some 0"
  using assms
  by (auto simp: periodic_ping_def Let_def arms_timer_def update_conv' split: if_splits)

lemma ping_timer_keeps_cleared:
  assumes "map_of (waiting_answer s) p = Some 0" and "take 5 name = ''ping_''"
  shows "map_of (waiting_answer (fst (on_timer e name s))) p = Some 0"
proof (cases "drop 5 name = p")
  case True
  with assms have "dict_get (waiting_answer s) (drop 5 name) 0 = 0"
    by (simp add: dict_get_def)
  with assms show ?thesis
    by (simp add: on_timer_def Let_def)
next
  case False
  with assms show ?thesis
    by (simp add: on_timer_def Let_def update_conv' delete_conv')
qed

lemma on_timer_keeps_cleared:
  assumes "map_of (waiting_answer s) p = Some 0"
    and "\<not> list_ex (arms_timer (''ping_'' @ p)) (snd (on_timer e name s))"
  shows "map_of (waiting_answer (fst (on_timer e name s))) p = Some 0"
proof (cases "take 5 name = ''ping_''")
  case True
  with assms(1) show ?thesis by (rule ping_timer_keeps_cleared)
next
  case False
  show ?thesis
  proof (cases "name = ''periodic_ping''")
    case True
    with False assms periodic_ping_keeps_cleared [of s p e] show ?thesis
      by (simp add: on_timer_def)
  next
    case other: False
    with False assms(1) show ?thesis
      by (simp add: on_timer_def)
  qed
qed

lemma step_keeps_cleared:
  assumes "map_of (waiting_answer s) p = Some 0"
    and "step e ev s = Inr (s', acts)"
    and "\<not> list_ex (arms_timer (''ping_'' @ p)) acts"
  shows "map_of (waiting_answer s') p = Some 0"
proof (cases ev)
  case (Local msg)
  with assms(2) have "on_local_message e msg s = Inr (s', acts)"
    by (simp add: step_def)
  from on_local_message_waiting [OF this] assms(1) show ?thesis by simp
next
  case (Net msg sender)
  with assms(2) have r: "s' = fst (on_message e msg sender s)"
    by (auto simp: step_def)
  from assms(1) show ?thesis
    unfolding r
    by (simp add: on_message_def on_ping_waiting on_ping_answer_keeps_cleared)
next
  case (Timer name)
  with assms(2) have r: "s' = fst (on_timer e name s)" "acts = snd (on_timer e name s)"
    by (auto simp: step_def)
  from assms(1,3) show ?thesis
    unfolding r by (rule on_timer_keeps_cleared)
qed

lemma run_keeps_cleared:
  assumes "map_of (waiting_answer s) p = Some 0"
    and "run evs s = Inr (s', acts)"
    and "\<not> list_ex (arms_timer (''ping_'' @ p)) acts"
  shows "map_of (waiting_answer s') p = Some 0"
  using assms
proof (induction evs arbitrary: s s' acts)
  case Nil
  then show ?case by simp
next
  case (Cons x evs)
  from Cons.prems(2) obtain s1 acts1 s2 acts2 where
    st: "step (fst x) (snd x) s = Inr (s1, acts1)" and
    rn: "run evs s1 = Inr (s2, acts2)" and
    eq: "s' = s2" "acts = acts1 @ acts2"
    by (auto split: sum.splits)
  from Cons.prems(3) eq have n1: "\<not> list_ex (arms_timer (''ping_'' @ p)) acts1"
    and n2: "\<not> list_ex (arms_timer (''ping_'' @ p)) acts2"
    by (simp_all add: list_ex_iff)
  from step_keeps_cleared [OF Cons.prems(1) st n1]
  have "map_of (waiting_answer s1) p = Some 0" .
  from Cons.IH [OF this rn n2] eq show ?case by simp
qed

text \<open>
  C9. Once a PING_ANSWER from a peer under suspicion has set the peer's entry in
  \<open>_waiting_answer\<close> to 0 (cancelling the peer's timer), the entry is still 0 after every run
  of callbacks that does not set the timer \<open>ping_<peer>\<close> again, that is, in which no new probe
  of the peer starts. A firing of \<open>ping_<peer>\<close> at the end of such a run, and so at any point
  of it, changes nothing and makes no call: the peer is neither moved to status 2 nor
  marked removed.
\<close>

theorem stale_timer_noop:
  assumes "0 < dict_get (waiting_answer s) sender 0"
    and "run evs (fst (on_ping_answer e msg sender s)) = Inr (s', acts)"
    and "\<not> list_ex (arms_timer (''ping_'' @ sender)) acts"
  shows "CancelTimer (''ping_'' @ sender) \<in> set (snd (on_ping_answer e msg sender s)) \<and>
         map_of (waiting_answer s') sender = Some 0 \<and>
         on_timer e' (''ping_'' @ sender) s' = (s', [])"
proof -
  from assms(1)
  have c: "CancelTimer (''ping_'' @ sender) \<in> set (snd (on_ping_answer e msg sender s))"
    by (simp add: on_ping_answer_alt Let_def)
  from assms(1)
  have "map_of (waiting_answer (fst (on_ping_answer e msg sender s))) sender = Some 0"
    by (simp add: on_ping_answer_waiting update_conv')
  from run_keeps_cleared [OF this assms(2,3)]
  have w: "map_of (waiting_answer s') sender = Some 0" .
  then have "dict_get (waiting_answer s') sender 0 = 0"
    by (simp add: dict_get_def)
  then have "on_timer e' (''ping_'' @ sender) s' = (s', [])"
    by (rule on_timer_idle)
  with c w show ?thesis by simp
qed

lemma answer_clears_st_susp:
  "on_ping_answer env0 (Message ''PING_ANSWER'') ''c'' (st_susp 2) =
     (st_susp 0, [CancelTimer ''ping_c''])"
  by (simp add: on_ping_answer_def Message_def merge_crdt_sample_def dict_get_def
        get_active_members_def st_susp_def Let_def insert_commute)

lemma ping_from_b_st_susp:
  "on_message env0 (ping_to None) ''b'' (st_susp 0) =
     (st_susp 0, [Send (payload ''PING_ANSWER'' env0 0 (st_susp 0)) ''b''])"
  by (simp add: on_message_def on_ping_def ping_to_def Message_def merge_crdt_sample_def
        dict_get_def get_active_members_def st_susp_def Let_def insert_commute)

lemma stale_fire_st_susp: "on_timer e ''ping_c'' (st_susp 0) = (st_susp 0, [])"
  by (simp add: on_timer_def dict_get_def st_susp_def Let_def)

theorem stale_timer_noop_witness:
  "0 < dict_get (waiting_answer (st_susp 2)) ''c'' 0 \<and>
   fst (on_ping_answer env0 (Message ''PING_ANSWER'') ''c'' (st_susp 2)) = st_susp 0 \<and>
   run [(env0, Timer ''ping_c''), (env0, Net (ping_to None) ''b'')] (st_susp 0) =
     Inr (st_susp 0, [Send (payload ''PING_ANSWER'' env0 0 (st_susp 0)) ''b'']) \<and>
   \<not> list_ex (arms_timer ''ping_c'') [Send (payload ''PING_ANSWER'' env0 0 (st_susp 0)) ''b''] \<and>
   CancelTimer ''ping_c'' \<in> set (snd (on_ping_answer env0 (Message ''PING_ANSWER'') ''c'' (st_susp 2))) \<and>
   map_of (waiting_answer (st_susp 0)) ''c'' = Some 0 \<and>
   on_timer env1 ''ping_c'' (st_susp 0) = (st_susp 0, [])"
proof -
  have a: "0 < dict_get (waiting_answer (st_susp 2)) ''c'' 0"
    by (simp add: dict_get_def st_susp_def)
  have b: "fst (on_ping_answer env0 (Message ''PING_ANSWER'') ''c'' (st_susp 2)) = st_susp 0"
    by (simp add: answer_clears_st_susp)
  have r: "run [(env0, Timer ''ping_c''), (env0, Net (ping_to None) ''b'')] (st_susp 0) =
     Inr (st_susp 0, [Send (payload ''PING_ANSWER'' env0 0 (st_susp 0)) ''b''])"
    by (simp add: step_def stale_fire_st_susp ping_from_b_st_susp)
  have n: "\<not> list_ex (arms_timer ''ping_c'') [Send (payload ''PING_ANSWER'' env0 0 (st_susp 0)) ''b'']"
    by (simp add: arms_timer_def)
  from r have r': "run [(env0, Timer ''ping_c''), (env0, Net (ping_to None) ''b'')]
      (fst (on_ping_answer env0 (Message ''PING_ANSWER'') ''c'' (st_susp 2))) =
     Inr (st_susp 0, [Send (payload ''PING_ANSWER'' env0 0 (st_susp 0)) ''b''])"
    by (simp only: b)
  from n have n': "\<not> list_ex (arms_timer (''ping_'' @ ''c''))
      [Send (payload ''PING_ANSWER'' env0 0 (st_susp 0)) ''b'']"
    by simp
  from stale_timer_noop [OF a r' n', of env1] a b r n show ?thesis
    by simp
qed

text \<open>
  A new probe of the peer sets the timer again, and that timer is not stale: from the
  cleared state \<open>st_susp 0\<close> the periodic probe picks \<open>c\<close>, sets \<open>ping_c\<close>, and the next
  firing of \<open>ping_c\<close> moves \<open>c\<close> to status 2.
\<close>

lemma reprobe_rearms_and_escalates:
  "fst (on_timer env1 ''periodic_ping'' (st_susp 0)) = st_susp 1 \<and>
   list_ex (arms_timer ''ping_c'') (snd (on_timer env1 ''periodic_ping'' (st_susp 0))) \<and>
   fst (on_timer env0 ''ping_c'' (st_susp 1)) = st_susp 2"
  by (simp add: on_timer_def periodic_ping_def dict_get_def arms_timer_def st_susp_def
        env1_def env0_def Let_def)

subsection \<open>Malformed payloads\<close>

text \<open>
  C8. A network message never makes the engine raise. A PING or PING_ANSWER is handled
  as the same message with every missing \<open>added\<close> or \<open>removed\<close> field set to the empty
  sample and a missing \<open>time\<close> set to 0: a PING_ANSWER gives the same state and the same
  calls, and its sender ends in the cached active set; a PING gives the same state, and when
  it is not relayed also the same calls, which are one PING_ANSWER to the sender, who is
  then a key of \<open>added\<close>.
\<close>

theorem missing_fields_defaults:
  "with_defaults ((Message t)\<lparr>msg_target := tg\<rparr>) =
     (Message t)\<lparr>msg_added := Some [], msg_removed := Some [], msg_time := Some 0,
                 msg_target := tg\<rparr> \<and>
   step e (Net msg sender) s = Inr (on_message e msg sender s) \<and>
   on_ping_answer e msg sender s = on_ping_answer e (with_defaults msg) sender s \<and>
   sender \<in> active (fst (on_ping_answer e msg sender s)) \<and>
   fst (on_ping e msg sender s) = fst (on_ping e (with_defaults msg) sender s) \<and>
   (msg_target msg = None \<or> msg_target msg = Some (self_id s) \<longrightarrow>
      on_ping e msg sender s = on_ping e (with_defaults msg) sender s \<and>
      snd (on_ping e msg sender s) =
        [Send (payload ''PING_ANSWER'' e 0 (fst (on_ping e msg sender s))) sender] \<and>
      map_of (added_members (fst (on_ping e msg sender s))) sender \<noteq> None)"
proof -
  have a: "with_defaults ((Message t)\<lparr>msg_target := tg\<rparr>) =
     (Message t)\<lparr>msg_added := Some [], msg_removed := Some [], msg_time := Some 0,
                 msg_target := tg\<rparr>"
    by (simp add: with_defaults_def Message_def added_or_empty_def removed_or_empty_def
          time_or_zero_def)
  have b: "step e (Net msg sender) s = Inr (on_message e msg sender s)"
    by (simp add: step_def)
  have c: "on_ping_answer e msg sender s = on_ping_answer e (with_defaults msg) sender s"
    by (simp add: on_ping_answer_alt)
  have d: "sender \<in> active (fst (on_ping_answer e msg sender s))"
    by (simp add: on_ping_answer_alt Let_def)
  have f: "fst (on_ping e msg sender s) = fst (on_ping e (with_defaults msg) sender s)"
    by (simp add: on_ping_alt Let_def split: option.split)
  have g: "on_ping e msg sender s = on_ping e (with_defaults msg) sender s"
       "snd (on_ping e msg sender s) =
          [Send (payload ''PING_ANSWER'' e 0 (fst (on_ping e msg sender s))) sender]"
       "map_of (added_members (fst (on_ping e msg sender s))) sender \<noteq> None"
    if "msg_target msg = None \<or> msg_target msg = Some (self_id s)"
  proof -
    from that have r: "relay_target msg s = None"
      by (simp add: relay_target_None)
    show "on_ping e msg sender s = on_ping e (with_defaults msg) sender s"
      by (simp add: on_ping_alt r)
    show "snd (on_ping e msg sender s) =
          [Send (payload ''PING_ANSWER'' e 0 (fst (on_ping e msg sender s))) sender]"
      by (simp add: on_ping_alt r Let_def)
    show "map_of (added_members (fst (on_ping e msg sender s))) sender \<noteq> None"
      by (simp add: on_ping_alt r Let_def refresh_sender_added)
  qed
  from a b c d f g show ?thesis by blast
qed

theorem missing_fields_defaults_witness:
  "msg_target (ping_to None) = None \<and>
   with_defaults (ping_to None) =
     (Message ''PING'')\<lparr>msg_added := Some [], msg_removed := Some [], msg_time := Some 0\<rparr> \<and>
   on_ping env0 (ping_to None) ''d'' st2 = on_ping env0 (with_defaults (ping_to None)) ''d'' st2 \<and>
   snd (on_ping env0 (ping_to None) ''d'' st2) =
     [Send (payload ''PING_ANSWER'' env0 0 (fst (on_ping env0 (ping_to None) ''d'' st2))) ''d''] \<and>
   map_of (added_members (fst (on_ping env0 (ping_to None) ''d'' st2))) ''d'' = Some (7, 1) \<and>
   on_ping_answer env0 (ping_to None) ''c'' st2 =
     on_ping_answer env0 (with_defaults (ping_to None)) ''c'' st2 \<and>
   ''c'' \<in> active (fst (on_ping_answer env0 (ping_to None) ''c'' st2))"
proof -
  have a: "msg_target (ping_to None) = None"
    by (simp add: ping_to_def Message_def)
  have b: "with_defaults (ping_to None) =
      (Message ''PING'')\<lparr>msg_added := Some [], msg_removed := Some [], msg_time := Some 0\<rparr>"
    by (simp add: with_defaults_def ping_to_def Message_def added_or_empty_def
          removed_or_empty_def time_or_zero_def)
  have d: "map_of (added_members (fst (on_ping env0 (ping_to None) ''d'' st2))) ''d'' = Some (7, 1)"
    by (simp add: on_ping_def ping_to_def Message_def merge_crdt_sample_def mark_added_def
          st2_def st1_def init_def env0_def Let_def)
  note w1 = missing_fields_defaults [where t = "''PING''" and tg = None and e = env0
         and msg = "ping_to None" and sender = "''d''" and s = st2]
  note w2 = missing_fields_defaults [where t = "''PING''" and tg = None and e = env0
         and msg = "ping_to None" and sender = "''c''" and s = st2]
  from w1 a have "on_ping env0 (ping_to None) ''d'' st2 =
        on_ping env0 (with_defaults (ping_to None)) ''d'' st2"
    and "snd (on_ping env0 (ping_to None) ''d'' st2) =
     [Send (payload ''PING_ANSWER'' env0 0 (fst (on_ping env0 (ping_to None) ''d'' st2))) ''d'']"
    by blast+
  moreover from w2 have "on_ping_answer env0 (ping_to None) ''c'' st2 =
     on_ping_answer env0 (with_defaults (ping_to None)) ''c'' st2"
    and "''c'' \<in> active (fst (on_ping_answer env0 (ping_to None) ''c'' st2))"
    by blast+
  ultimately show ?thesis using a b d by blast
qed

subsection \<open>Repeated JOIN\<close>

text \<open>
  C3 does not hold of \<open>_create_group\<close>, which lacks the test of \<open>_joined\<close> that
  \<open>_join_group\<close> starts with. Process \<open>a\<close>, joined, receives \<open>JOIN {seed: a}\<close> again: the
  generation counter, the entry \<open>added[a]\<close> and the watermark change, and the probe timer is
  set again.
\<close>

theorem join_self_again_changes_state:
  "joined joined_a \<and>
   on_local_message env0 (join_msg ''a'') joined_a =
     Inr (joined_a\<lparr>generation := 2, added_members := [(''a'', (7, 2))], time := 2\<rparr>,
          [SetTimer ''periodic_ping'' 5]) \<and>
   joined_a\<lparr>generation := 2, added_members := [(''a'', (7, 2))], time := 2\<rparr> \<noteq> joined_a"
  by (simp add: on_local_message_def join_msg_def Message_def create_group_def
      mark_added_def joined_a_def start_periodic_ping_def T_def env0_def Let_def)

text \<open>A JOIN with another seed is ignored by a joined engine.\<close>

lemma join_other_seed_noop:
  "joined s \<Longrightarrow> seed \<noteq> self_id s \<Longrightarrow>
   on_local_message e ((Message ''JOIN'')\<lparr>msg_seed := Some seed\<rparr>) s = Inr (s, [])"
  by (simp add: on_local_message_def Message_def join_group_def)

subsection \<open>The registers at one process id\<close>

lemma key_view_merge_added_entry:
  "key_view (merge_added_entry item s) p =
     (if p = fst item then add_key (entry_tag (snd item)) (key_view s p) else key_view s p)"
  by (simp add: key_view_def merge_added_entry_def add_key_def entry_tag_def gen_or_def
        drop_below_def dict_get_def Let_def update_conv' delete_conv' split: option.split)

lemma key_view_merge_removed_entry:
  "key_view (merge_removed_entry item s) p =
     (if p = fst item then rem_key (entry_tag (snd item)) (key_view s p) else key_view s p)"
  by (simp add: key_view_def merge_removed_entry_def rem_key_def entry_tag_def gen_or_def
        drop_below_def dict_get_def Let_def update_conv' delete_conv' split: option.split)

lemma key_view_fold_added:
  "key_view (fold merge_added_entry xs s) p = fold add_key (tags_at p xs) (key_view s p)"
  by (induction xs arbitrary: s) (simp_all add: tags_at_def key_view_merge_added_entry)

lemma key_view_fold_removed:
  "key_view (fold merge_removed_entry xs s) p = fold rem_key (tags_at p xs) (key_view s p)"
  by (induction xs arbitrary: s) (simp_all add: tags_at_def key_view_merge_removed_entry)

lemma key_view_frame [simp]:
  "key_view (s\<lparr>time := t\<rparr>) = key_view s"
  "key_view (s\<lparr>active := A\<rparr>) = key_view s"
  by (simp_all add: key_view_def fun_eq_iff)

lemma key_view_merge:
  "key_view (merge_crdt_sample A R t s) p =
     fold rem_key (tags_at p R) (fold add_key (tags_at p A) (key_view s p))"
  by (simp add: merge_crdt_sample_def Let_def key_view_fold_added key_view_fold_removed)

lemma get_active_members_key: "get_active_members s = {p. key_active (key_view s p)}"
proof (rule set_eqI)
  fix p
  show "p \<in> get_active_members s \<longleftrightarrow> p \<in> {p. key_active (key_view s p)}"
    unfolding get_active_members_def get_active_loop_eq key_active_def key_view_def
    by (cases "map_of (added_members s) p"; cases "map_of (removed_members s) p")
       (auto simp: in_keys_iff)
qed

lemma active_merge:
  "active (merge_crdt_sample A R t s) = {p. key_active (key_view (merge_crdt_sample A R t s) p)}"
proof -
  have "active (merge_crdt_sample A R t s) = get_active_members (merge_crdt_sample A R t s)"
    by (simp add: merge_crdt_sample_def Let_def get_active_members_def)
  then show ?thesis by (simp add: get_active_members_key)
qed

lemma tags_at_distinct:
  "distinct (map fst xs) \<Longrightarrow>
   tags_at p xs = (case map_of xs p of None \<Rightarrow> [] | Some d \<Rightarrow> [entry_tag d])"
  by (induction xs) (auto simp: tags_at_def map_of_eq_None_iff filter_empty_conv image_iff split: option.split)

subsection \<open>Presence of both entries\<close>

lemma step_gossip_removed:
  "fst (on_message env0 (gossip [] (sample_c 7)) ''b'' joined_a) =
     st_both\<lparr>added_members := [(''a'', (7, 1)), (''b'', (7, 2))]\<rparr>"
  by (simp add: on_message_def on_ping_def gossip_def sample_c_def Message_def
      merge_crdt_sample_def merge_removed_entry_def dict_get_def get_active_members_def
      mark_added_def joined_a_def st_both_def env0_def Let_def insert_commute)

lemma step_gossip_added:
  "fst (on_message env0 (gossip (sample_c 5) []) ''b''
         (st_both\<lparr>added_members := [(''a'', (7, 1)), (''b'', (7, 2))]\<rparr>)) = st_both"
  by (simp add: on_message_def on_ping_def gossip_def sample_c_def Message_def
      merge_crdt_sample_def merge_added_entry_def dict_get_def get_active_members_def
      st_both_def env0_def Let_def insert_commute)

lemma reachable_st_both: "reachable ''a'' st_both"
proof -
  let ?s1 = "st_both\<lparr>added_members := [(''a'', (7, 1)), (''b'', (7, 2))]\<rparr>"
  have "reachable ''a'' (fst (on_message env0 (gossip [] (sample_c 7)) ''b'' joined_a))"
    by (rule reach_step [OF reachable_joined_a, of env0 "Net (gossip [] (sample_c 7)) ''b''" _
          "snd (on_message env0 (gossip [] (sample_c 7)) ''b'' joined_a)"])
       (simp add: step_def)
  then have r1: "reachable ''a'' ?s1"
    by (simp only: step_gossip_removed)
  have "reachable ''a'' (fst (on_message env0 (gossip (sample_c 5) []) ''b'' ?s1))"
    by (rule reach_step [OF r1, of env0 "Net (gossip (sample_c 5) []) ''b''" _
          "snd (on_message env0 (gossip (sample_c 5) []) ''b'' ?s1)"])
       (simp add: step_def)
  then show ?thesis
    by (simp only: step_gossip_added)
qed

text \<open>
  C2 as stated fails. The state \<open>st_both\<close> is reached by a JOIN and two PINGs, and in it
  process \<open>c\<close> is a key of both registers: the merge wrote \<open>added[c]\<close> with generation 5 and
  kept \<open>removed[c]\<close>, whose generation 7 is not below 5.
\<close>

theorem both_present_counterexample:
  "reachable ''a'' st_both \<and>
   map_of (added_members st_both) ''c'' = Some (0, 5) \<and>
   map_of (removed_members st_both) ''c'' = Some (0, 7)"
  using reachable_st_both by (simp add: st_both_def)

text \<open>
  C2, amended. Both entries can be present. An iteration of the first merge loop writes
  \<open>added[p]\<close> when the sample's generation \<open>g\<close> is above the stored one (\<open>-1\<close> when absent),
  and then \<open>removed[p]\<close> is deleted exactly when its generation is below \<open>g\<close>, and kept
  otherwise; when \<open>g\<close> is not above the stored generation nothing changes. The second loop
  does the same with the registers exchanged. \<open>_mark_removed(p, ts)\<close> writes \<open>removed[p]\<close> with
  the fresh generation \<open>G + 1\<close> and deletes \<open>added[p]\<close> exactly when its generation is below
  \<open>G + 1\<close>.
\<close>

theorem written_entry_dominates:
  "(gen_or (map_of (added_members s) p) < snd (entry_tag d) \<longrightarrow>
      map_of (added_members (merge_added_entry (p, d) s)) p = Some (entry_tag d) \<and>
      map_of (removed_members (merge_added_entry (p, d) s)) p =
        drop_below (snd (entry_tag d)) (map_of (removed_members s) p)) \<and>
   (snd (entry_tag d) \<le> gen_or (map_of (added_members s) p) \<longrightarrow>
      merge_added_entry (p, d) s = s) \<and>
   (gen_or (map_of (removed_members s) p) < snd (entry_tag d) \<longrightarrow>
      map_of (removed_members (merge_removed_entry (p, d) s)) p = Some (entry_tag d) \<and>
      map_of (added_members (merge_removed_entry (p, d) s)) p =
        drop_below (snd (entry_tag d)) (map_of (added_members s) p)) \<and>
   (snd (entry_tag d) \<le> gen_or (map_of (removed_members s) p) \<longrightarrow>
      merge_removed_entry (p, d) s = s) \<and>
   map_of (removed_members (mark_removed p ts s)) p = Some (ts, generation s + 1) \<and>
   map_of (added_members (mark_removed p ts s)) p =
     drop_below (generation s + 1) (map_of (added_members s) p)"
proof -
  have a: "key_view (merge_added_entry (p, d) s) p = add_key (entry_tag d) (key_view s p)"
    by (simp add: key_view_merge_added_entry)
  have r: "key_view (merge_removed_entry (p, d) s) p = rem_key (entry_tag d) (key_view s p)"
    by (simp add: key_view_merge_removed_entry)
  have a0: "snd (entry_tag d) \<le> gen_or (map_of (added_members s) p) \<Longrightarrow>
      merge_added_entry (p, d) s = s"
    by (cases "map_of (added_members s) p")
       (auto simp add: merge_added_entry_def entry_tag_def gen_or_def dict_get_def Let_def)
  have r0: "snd (entry_tag d) \<le> gen_or (map_of (removed_members s) p) \<Longrightarrow>
      merge_removed_entry (p, d) s = s"
    by (cases "map_of (removed_members s) p")
       (auto simp add: merge_removed_entry_def entry_tag_def gen_or_def dict_get_def Let_def)
  have m: "map_of (added_members (mark_removed p ts s)) p =
     drop_below (generation s + 1) (map_of (added_members s) p)"
    by (simp add: mark_removed_def drop_below_def Let_def delete_conv' split: option.split)
  have a1: "map_of (added_members (merge_added_entry (p, d) s)) p = Some (entry_tag d) \<and>
      map_of (removed_members (merge_added_entry (p, d) s)) p =
        drop_below (snd (entry_tag d)) (map_of (removed_members s) p)"
    if "gen_or (map_of (added_members s) p) < snd (entry_tag d)"
    using a that by (simp add: key_view_def add_key_def)
  have r1: "map_of (removed_members (merge_removed_entry (p, d) s)) p = Some (entry_tag d) \<and>
      map_of (added_members (merge_removed_entry (p, d) s)) p =
        drop_below (snd (entry_tag d)) (map_of (added_members s) p)"
    if "gen_or (map_of (removed_members s) p) < snd (entry_tag d)"
    using r that by (simp add: key_view_def rem_key_def)
  have m0: "map_of (removed_members (mark_removed p ts s)) p = Some (ts, generation s + 1)"
    by simp
  from a1 r1 a0 r0 m m0 show ?thesis
    by blast
qed

theorem written_entry_dominates_witness:
  "gen_or (map_of (added_members st_both) ''c'') < snd (entry_tag (snd (hd (sample_c 9)))) \<and>
   map_of (added_members (merge_added_entry (''c'', snd (hd (sample_c 9))) st_both)) ''c'' = Some (0, 9) \<and>
   map_of (removed_members (merge_added_entry (''c'', snd (hd (sample_c 9))) st_both)) ''c'' = None \<and>
   snd (entry_tag (snd (hd (sample_c 6)))) \<le> gen_or (map_of (removed_members st_both) ''c'') \<and>
   merge_removed_entry (''c'', snd (hd (sample_c 6))) st_both = st_both"
proof -
  have a: "gen_or (map_of (added_members st_both) ''c'') = 5"
       "gen_or (map_of (removed_members st_both) ''c'') = 7"
       "entry_tag (snd (hd (sample_c g))) = (0, g)" for g
    by (simp_all add: gen_or_def st_both_def sample_c_def entry_tag_def)
  have b: "drop_below 9 (map_of (removed_members st_both) ''c'') = None"
    by (simp add: drop_below_def st_both_def)
  show ?thesis
    using written_entry_dominates [of st_both "''c''" "snd (hd (sample_c 9))" 0]
          written_entry_dominates [of st_both "''c''" "snd (hd (sample_c 6))" 0] a b
    by simp
qed

subsection \<open>Merging twice\<close>

lemmas key_defs = key_merge_def add_key_def rem_key_def gen_or_def drop_below_def key_active_def

lemma short_list: "length xs \<le> 1 \<Longrightarrow> xs = [] \<or> (\<exists>x. xs = [x])"
  by (cases xs) auto

lemma key_merge_idem_removed:
  assumes "length as \<le> 1" "length rs \<le> 1"
  shows "snd (key_merge as rs (key_merge as rs v)) = snd (key_merge as rs v)"
proof -
  obtain a r where v: "v = (a, r)" by (cases v)
  from short_list [OF assms(1)] short_list [OF assms(2)] show ?thesis
    unfolding v
    by (elim disjE exE; cases a; cases r; simp add: key_defs)
qed

lemma key_merge_idem_active:
  assumes "length as \<le> 1" "length rs \<le> 1"
  shows "key_active (key_merge as rs (key_merge as rs v)) = key_active (key_merge as rs v)"
proof -
  obtain a r where v: "v = (a, r)" by (cases v)
  from short_list [OF assms(1)] short_list [OF assms(2)] show ?thesis
    unfolding v
    by (elim disjE exE; cases a; cases r; simp add: key_defs)
qed

lemma key_merge_idem_added:
  assumes "length as \<le> 1" "length rs \<le> 1"
    and "\<forall>a\<in>set as. \<forall>r\<in>set rs. snd r \<le> snd a"
  shows "fst (key_merge as rs (key_merge as rs v)) = fst (key_merge as rs v)"
proof -
  obtain a r where v: "v = (a, r)" by (cases v)
  from short_list [OF assms(1)] short_list [OF assms(2)] assms(3) show ?thesis
    unfolding v
    by (elim disjE exE; cases a; cases r; simp add: key_defs)
qed

lemma key_view_merge_short:
  assumes "distinct (map fst A)" "distinct (map fst R)"
  shows "key_view (merge_crdt_sample A R t s) p =
           key_merge (tags_at p A) (tags_at p R) (key_view s p)"
    and "length (tags_at p A) \<le> 1" and "length (tags_at p R) \<le> 1"
  using assms by (simp_all add: key_view_merge key_merge_def tags_at_distinct split: option.split)

text \<open>
  C4 as stated fails on the added register. From the initial state, a payload holding \<open>c\<close>
  with generation 5 in its added sample and with generation 7 in its removed sample leaves
  \<open>added[c]\<close> absent after one merge (the second loop deletes it) and present after two (the
  first loop writes it again, and the second loop no longer fires).
\<close>

theorem merge_twice_counterexample:
  "map_of (added_members (merge_crdt_sample (sample_c 5) (sample_c 7) 0 (init ''a''))) ''c'' = None \<and>
   map_of (added_members (merge_crdt_sample (sample_c 5) (sample_c 7) 0
      (merge_crdt_sample (sample_c 5) (sample_c 7) 0 (init ''a'')))) ''c'' = Some (0, 5)"
  by (simp add: merge_crdt_sample_def merge_added_entry_def merge_removed_entry_def
        dict_get_def sample_c_def init_def Let_def)

text \<open>
  C4, amended. For a payload whose samples are dictionaries (no key twice), merging it
  twice in succession gives the same watermark, the same cached active set and the same
  removed register as merging it once, in every state. The added register is the same as
  well when no process id is in both samples with a removed generation above its added
  generation.
\<close>

theorem merge_twice:
  assumes "distinct (map fst A)" and "distinct (map fst R)"
  shows "time (merge_crdt_sample A R t (merge_crdt_sample A R t s)) =
           time (merge_crdt_sample A R t s) \<and>
         active (merge_crdt_sample A R t (merge_crdt_sample A R t s)) =
           active (merge_crdt_sample A R t s) \<and>
         map_of (removed_members (merge_crdt_sample A R t (merge_crdt_sample A R t s))) =
           map_of (removed_members (merge_crdt_sample A R t s)) \<and>
         ((\<forall>p a r. map_of A p = Some a \<and> map_of R p = Some r \<longrightarrow>
              snd (entry_tag r) \<le> snd (entry_tag a)) \<longrightarrow>
          map_of (added_members (merge_crdt_sample A R t (merge_crdt_sample A R t s))) =
            map_of (added_members (merge_crdt_sample A R t s)))"
proof -
  let ?m = "merge_crdt_sample A R t"
  note kv = key_view_merge_short [OF assms]
  have v2: "key_view (?m (?m s)) p =
      key_merge (tags_at p A) (tags_at p R) (key_merge (tags_at p A) (tags_at p R) (key_view s p))" for p
    by (simp add: kv(1))
  have am: "map_of (added_members x) p = fst (key_view x p)"
    and rm: "map_of (removed_members x) p = snd (key_view x p)" for x p
    by (simp_all add: key_view_def)
  have "time (?m (?m s)) = time (?m s)"
    by simp
  moreover have "active (?m (?m s)) = active (?m s)"
    unfolding active_merge
    by (simp add: v2 kv(1) key_merge_idem_active [OF kv(2,3)])
  moreover have "map_of (removed_members (?m (?m s))) p = map_of (removed_members (?m s)) p" for p
    using key_merge_idem_removed [OF kv(2,3), of p p "key_view s p"]
    by (simp add: rm v2 kv(1))
  moreover have "map_of (added_members (?m (?m s))) p = map_of (added_members (?m s)) p"
    if c: "\<forall>p a r. map_of A p = Some a \<and> map_of R p = Some r \<longrightarrow> snd (entry_tag r) \<le> snd (entry_tag a)" for p
  proof -
    have "\<forall>a\<in>set (tags_at p A). \<forall>r\<in>set (tags_at p R). snd r \<le> snd a"
    proof (cases "map_of A p")
      case None
      then show ?thesis by (simp add: tags_at_distinct [OF assms(1)])
    next
      case A: (Some a)
      show ?thesis
      proof (cases "map_of R p")
        case None
        then show ?thesis by (simp add: tags_at_distinct [OF assms(2)])
      next
        case (Some r)
        with A c have "snd (entry_tag r) \<le> snd (entry_tag a)" by blast
        with A Some show ?thesis
          by (simp add: tags_at_distinct [OF assms(1)] tags_at_distinct [OF assms(2)])
      qed
    qed
    from key_merge_idem_added [OF kv(2,3) this, of "key_view s p"]
    show ?thesis
      by (simp add: am v2 kv(1))
  qed
  ultimately show ?thesis by (auto simp: fun_eq_iff)
qed

theorem merge_twice_witness:
  "distinct (map fst (sample_c 5)) \<and> distinct (map fst (sample_c 7)) \<and>
   active (merge_crdt_sample (sample_c 5) (sample_c 7) 3
            (merge_crdt_sample (sample_c 5) (sample_c 7) 3 joined_a)) =
     active (merge_crdt_sample (sample_c 5) (sample_c 7) 3 joined_a) \<and>
   map_of (removed_members (merge_crdt_sample (sample_c 5) (sample_c 7) 3
            (merge_crdt_sample (sample_c 5) (sample_c 7) 3 joined_a))) =
     map_of (removed_members (merge_crdt_sample (sample_c 5) (sample_c 7) 3 joined_a)) \<and>
   map_of (added_members (merge_crdt_sample (sample_c 7) (sample_c 5) 3
            (merge_crdt_sample (sample_c 7) (sample_c 5) 3 joined_a))) =
     map_of (added_members (merge_crdt_sample (sample_c 7) (sample_c 5) 3 joined_a))"
proof -
  have d: "distinct (map fst (sample_c 5))" "distinct (map fst (sample_c 7))"
    by (simp_all add: sample_c_def)
  have c: "\<forall>p a r. map_of (sample_c 7) p = Some a \<and> map_of (sample_c 5) p = Some r \<longrightarrow>
              snd (entry_tag r) \<le> snd (entry_tag a)"
    by (simp add: sample_c_def entry_tag_def)
  from merge_twice [OF d, of 3 joined_a] merge_twice [OF d(2) d(1), of 3 joined_a] c d
  show ?thesis by blast
qed

subsection \<open>Generations in a run\<close>

lemma list_all_update:
  "list_all P al \<Longrightarrow> P (k, v) \<Longrightarrow> list_all P (AList.update k v al)"
  by (induction al) auto

lemma list_all_delete: "list_all P al \<Longrightarrow> list_all P (AList.delete k al)"
  by (induction al) auto

lemma list_all_lookup: "list_all P al \<Longrightarrow> map_of al k = Some v \<Longrightarrow> P (k, v)"
  by (induction al) (auto split: if_splits)

lemma gens_nonneg_frame [simp]:
  "gens_nonneg (s\<lparr>time := t\<rparr>) = gens_nonneg s"
  "gens_nonneg (s\<lparr>active := A\<rparr>) = gens_nonneg s"
  "gens_nonneg (s\<lparr>joined := j\<rparr>) = gens_nonneg s"
  "gens_nonneg (s\<lparr>waiting_answer := w\<rparr>) = gens_nonneg s"
  by (simp_all add: gens_nonneg_def)

lemma gen_inv_frame [simp]:
  "gen_inv (s\<lparr>time := t\<rparr>) = gen_inv s"
  "gen_inv (s\<lparr>active := A\<rparr>) = gen_inv s"
  "gen_inv (s\<lparr>joined := j\<rparr>) = gen_inv s"
  "gen_inv (s\<lparr>waiting_answer := w\<rparr>) = gen_inv s"
  by (simp_all add: gen_inv_def)

lemma gen_inv_mark_added: "gen_inv s \<Longrightarrow> gen_inv (mark_added p ts s)"
  by (auto simp: gen_inv_def gens_nonneg_def mark_added_def Let_def list_all_update
        list_all_delete split: option.split)

lemma gen_inv_mark_removed: "gen_inv s \<Longrightarrow> gen_inv (mark_removed p ts s)"
  by (auto simp: gen_inv_def gens_nonneg_def mark_removed_def Let_def list_all_update
        list_all_delete split: option.split)

lemma current_gen_lower:
  fixes al :: register
  shows "list_all (\<lambda>x. 0 \<le> snd (snd x)) al \<Longrightarrow> - 1 \<le> snd (dict_get al p (0, - 1))"
proof (cases "map_of al p")
  case None
  then show ?thesis by (simp add: dict_get_def)
next
  case (Some v)
  assume "list_all (\<lambda>x. 0 \<le> snd (snd x)) al"
  from list_all_lookup [OF this Some] Some show ?thesis
    by (simp add: dict_get_def)
qed

lemma gens_nonneg_merge_added_entry:
  "gens_nonneg s \<Longrightarrow> gens_nonneg (merge_added_entry x s)"
  using current_gen_lower [of "added_members s" "fst x"]
  by (auto simp: gens_nonneg_def merge_added_entry_def Let_def list_all_update list_all_delete
        split: option.split)

lemma gens_nonneg_merge_removed_entry:
  "gens_nonneg s \<Longrightarrow> gens_nonneg (merge_removed_entry x s)"
  using current_gen_lower [of "removed_members s" "fst x"]
  by (auto simp: gens_nonneg_def merge_removed_entry_def Let_def list_all_update list_all_delete
        split: option.split)

lemma gens_nonneg_fold_added:
  "gens_nonneg s \<Longrightarrow> gens_nonneg (fold merge_added_entry xs s)"
  by (induction xs arbitrary: s) (simp_all add: gens_nonneg_merge_added_entry)

lemma gens_nonneg_fold_removed:
  "gens_nonneg s \<Longrightarrow> gens_nonneg (fold merge_removed_entry xs s)"
  by (induction xs arbitrary: s) (simp_all add: gens_nonneg_merge_removed_entry)

lemma gen_inv_merge: "gen_inv s \<Longrightarrow> gen_inv (merge_crdt_sample A R t s)"
  by (simp add: gen_inv_def merge_crdt_sample_def Let_def gens_nonneg_fold_added
        gens_nonneg_fold_removed)

lemma gen_inv_refresh_sender: "gen_inv s \<Longrightarrow> gen_inv (refresh_sender e sender s)"
  by (simp add: refresh_sender_def Let_def gen_inv_mark_added split: option.split)

lemma gen_inv_on_ping: "gen_inv s \<Longrightarrow> gen_inv (fst (on_ping e msg sender s))"
  by (simp add: on_ping_alt Let_def gen_inv_merge gen_inv_refresh_sender split: option.split)

lemma gen_inv_on_ping_answer: "gen_inv s \<Longrightarrow> gen_inv (fst (on_ping_answer e msg sender s))"
  by (simp add: on_ping_answer_alt Let_def gen_inv_merge gen_inv_mark_added split: option.split)

lemma gen_inv_on_message: "gen_inv s \<Longrightarrow> gen_inv (fst (on_message e msg sender s))"
  by (simp add: on_message_def gen_inv_on_ping gen_inv_on_ping_answer)

lemma gen_inv_on_timer: "gen_inv s \<Longrightarrow> gen_inv (fst (on_timer e name s))"
  by (simp add: on_timer_def periodic_ping_def Let_def gen_inv_mark_removed)

lemma gen_inv_on_local_message:
  "gen_inv s \<Longrightarrow> on_local_message e msg s = Inr (s', acts) \<Longrightarrow> gen_inv s'"
  by (auto simp: on_local_message_def create_group_def join_group_def leave_group_def Let_def
        gen_inv_mark_added gen_inv_mark_removed split: option.splits if_splits)

lemma gen_inv_init: "gen_inv (init proc)"
  by (simp add: gen_inv_def gens_nonneg_def init_def)

lemma reachable_gen_inv: "reachable proc s \<Longrightarrow> gen_inv s"
proof (induction rule: reachable.induct)
  case reach_init
  show ?case by (rule gen_inv_init)
next
  case (reach_step s e ev s' acts)
  show ?case
  proof (cases ev)
    case (Local msg)
    with reach_step show ?thesis
      by (auto simp: step_def dest: gen_inv_on_local_message)
  next
    case (Net msg sender)
    with reach_step gen_inv_on_message [of s e msg sender] show ?thesis
      by (auto simp: step_def)
  next
    case (Timer name)
    with reach_step gen_inv_on_timer [of s e name] show ?thesis
      by (auto simp: step_def)
  qed
qed

lemma reachable_gens_nonneg: "reachable proc s \<Longrightarrow> gens_nonneg s"
  using reachable_gen_inv by (simp add: gen_inv_def)

subsection \<open>Merging in either order\<close>

lemmas key_defs2 = add_key_def rem_key_def gen_or_def drop_below_def key_active_def key_ok_def rank_def

lemma add_key_rank:
  "key_ok v \<Longrightarrow> key_ok (add_key t v) \<and> rank (add_key t v) = max (rank v) (2 * snd t)"
  by (cases v; cases "fst v"; cases "snd v") (auto simp: key_defs2)

lemma rem_key_rank:
  "key_ok v \<Longrightarrow> key_ok (rem_key t v) \<and> rank (rem_key t v) = max (rank v) (2 * snd t + 1)"
  by (cases v; cases "fst v"; cases "snd v") (auto simp: key_defs2)

lemma key_active_rank: "key_ok v \<Longrightarrow> key_active v \<longleftrightarrow> even (rank v)"
  by (cases v; cases "fst v"; cases "snd v") (auto simp: key_defs2)

lemma fold_add_key_rank:
  "key_ok v \<Longrightarrow> key_ok (fold add_key ts v) \<and>
     rank (fold add_key ts v) = fold (\<lambda>t m. max m (2 * snd t)) ts (rank v)"
  by (induction ts arbitrary: v) (simp_all add: add_key_rank)

lemma fold_rem_key_rank:
  "key_ok v \<Longrightarrow> key_ok (fold rem_key ts v) \<and>
     rank (fold rem_key ts v) = fold (\<lambda>t m. max m (2 * snd t + 1)) ts (rank v)"
  by (induction ts arbitrary: v) (simp_all add: rem_key_rank)

lemma fold_max_shift:
  "fold (\<lambda>t m. max m (f t)) ts (max m c) = max (fold (\<lambda>t m. max m (f t)) ts m) (c::int)"
proof (induction ts arbitrary: m)
  case Nil
  show ?case by simp
next
  case (Cons a ts)
  have "max (max m c) (f a) = max (max m (f a)) c"
    by (simp add: max_def)
  then show ?case
    by (simp add: Cons.IH)
qed

lemma fold_max_ge: "(m::int) \<le> fold (\<lambda>t m. max m (f t)) ts m"
proof (induction ts arbitrary: m)
  case Nil
  show ?case by simp
next
  case (Cons a ts)
  have "m \<le> max m (f a)" by simp
  also have "\<dots> \<le> fold (\<lambda>t m. max m (f t)) ts (max m (f a))" by (rule Cons.IH)
  finally show ?case by simp
qed

lemma raise_shift: "raise as rs (max m c) = max (raise as rs m) c"
  by (simp add: raise_def fold_max_shift)

lemma raise_ge: "m \<le> raise as rs m"
  unfolding raise_def by (rule order_trans [OF fold_max_ge fold_max_ge])

lemma raise_raise: "raise as rs (raise as' rs' m) = max (raise as rs m) (raise as' rs' m)"
proof -
  have "raise as' rs' m = max m (raise as' rs' m)"
    using raise_ge [of m as' rs'] by simp
  then have "raise as rs (raise as' rs' m) = raise as rs (max m (raise as' rs' m))"
    by simp
  then show ?thesis by (simp only: raise_shift)
qed

lemma raise_commute: "raise as rs (raise as' rs' m) = raise as' rs' (raise as rs m)"
  by (simp add: raise_raise max.commute)

lemma raise_idem: "raise as rs (raise as rs m) = raise as rs m"
  by (simp add: raise_raise)

lemma gens_nonneg_key_ok: "gens_nonneg s \<Longrightarrow> key_ok (key_view s p)"
proof -
  have *: "list_all (\<lambda>x. 0 \<le> snd (snd x)) al \<Longrightarrow>
      (case map_of al p of None \<Rightarrow> True | Some a \<Rightarrow> 0 \<le> snd a)" for al :: register
    by (induction al) auto
  show "gens_nonneg s \<Longrightarrow> key_ok (key_view s p)"
    by (simp add: gens_nonneg_def key_ok_def key_view_def *)
qed

lemma merge_rank:
  assumes "gens_nonneg s"
  shows "key_ok (key_view (merge_crdt_sample A R t s) p) \<and>
         rank (key_view (merge_crdt_sample A R t s) p) =
           raise (tags_at p A) (tags_at p R) (rank (key_view s p))"
  using fold_rem_key_rank [OF conjunct1 [OF fold_add_key_rank [OF gens_nonneg_key_ok [OF assms]]]]
        fold_add_key_rank [OF gens_nonneg_key_ok [OF assms]]
  by (simp add: key_view_merge raise_def)

lemma merge_merge_rank:
  assumes "gens_nonneg s"
  shows "key_ok (key_view (merge_crdt_sample A' R' t' (merge_crdt_sample A R t s)) p) \<and>
         rank (key_view (merge_crdt_sample A' R' t' (merge_crdt_sample A R t s)) p) =
           raise (tags_at p A') (tags_at p R') (raise (tags_at p A) (tags_at p R) (rank (key_view s p)))"
proof -
  let ?s1 = "merge_crdt_sample A R t s"
  have ok1: "key_ok (key_view ?s1 p)" and r1: "rank (key_view ?s1 p) =
           raise (tags_at p A) (tags_at p R) (rank (key_view s p))"
    using merge_rank [OF assms] by simp_all
  have "key_view (merge_crdt_sample A' R' t' ?s1) p =
      fold rem_key (tags_at p R') (fold add_key (tags_at p A') (key_view ?s1 p))"
    by (rule key_view_merge)
  with fold_rem_key_rank [OF conjunct1 [OF fold_add_key_rank [OF ok1]]] fold_add_key_rank [OF ok1] r1
  show ?thesis by (simp add: raise_def)
qed

text \<open>
  C5 as stated fails on the registers. From the initial state, merging a payload whose
  added sample holds \<open>c\<close> with generation 5 and then one whose removed sample holds \<open>c\<close> with
  generation 7 leaves \<open>added[c]\<close> absent; in the other order \<open>added[c]\<close> is present.
\<close>

theorem merge_order_counterexample:
  "map_of (added_members (merge_crdt_sample [] (sample_c 7) 0
      (merge_crdt_sample (sample_c 5) [] 0 (init ''a'')))) ''c'' = None \<and>
   map_of (added_members (merge_crdt_sample (sample_c 5) [] 0
      (merge_crdt_sample [] (sample_c 7) 0 (init ''a'')))) ''c'' = Some (0, 5)"
  by (simp add: merge_crdt_sample_def merge_added_entry_def merge_removed_entry_def
        dict_get_def sample_c_def init_def Let_def)

text \<open>
  C5, amended. In a state whose stored generations are not negative, and so in every state
  of a run, merging two payloads in either order gives the same watermark, the same cached
  active set and the same result of \<open>_get_active_members\<close>.
\<close>

theorem merge_commutes_on_active:
  assumes "gens_nonneg s \<or> reachable proc s"
  shows "time (merge_crdt_sample A' R' t' (merge_crdt_sample A R t s)) =
           time (merge_crdt_sample A R t (merge_crdt_sample A' R' t' s)) \<and>
         active (merge_crdt_sample A' R' t' (merge_crdt_sample A R t s)) =
           active (merge_crdt_sample A R t (merge_crdt_sample A' R' t' s)) \<and>
         get_active_members (merge_crdt_sample A' R' t' (merge_crdt_sample A R t s)) =
           get_active_members (merge_crdt_sample A R t (merge_crdt_sample A' R' t' s))"
proof -
  let ?xy = "merge_crdt_sample A' R' t' (merge_crdt_sample A R t s)"
  let ?yx = "merge_crdt_sample A R t (merge_crdt_sample A' R' t' s)"
  from assms have nn: "gens_nonneg s"
    using reachable_gens_nonneg by blast
  have "key_active (key_view ?xy p) = key_active (key_view ?yx p)" for p
    using merge_merge_rank [OF nn, of A' R' t' A R t p] merge_merge_rank [OF nn, of A R t A' R' t' p]
    by (simp add: key_active_rank raise_commute)
  then have g: "get_active_members ?xy = get_active_members ?yx"
    by (simp add: get_active_members_key)
  have a: "active ?xy = active ?yx"
    unfolding active_merge [of A' R' t'] active_merge [of A R t] using g
    by (simp add: get_active_members_key)
  have t: "time ?xy = time ?yx"
    by (simp add: max.assoc max.commute max.left_commute)
  from t a g show ?thesis by simp
qed

theorem merge_commutes_on_active_witness:
  "reachable ''a'' joined_a \<and> gens_nonneg joined_a \<and>
   active (merge_crdt_sample [] (sample_c 7) 0 (merge_crdt_sample (sample_c 5) [] 3 joined_a)) =
     active (merge_crdt_sample (sample_c 5) [] 3 (merge_crdt_sample [] (sample_c 7) 0 joined_a)) \<and>
   active (merge_crdt_sample [] (sample_c 7) 0 (merge_crdt_sample (sample_c 5) [] 3 joined_a)) = {''a''} \<and>
   time (merge_crdt_sample [] (sample_c 7) 0 (merge_crdt_sample (sample_c 5) [] 3 joined_a)) = 3"
proof -
  have g: "gens_nonneg joined_a"
    by (simp add: gens_nonneg_def joined_a_def)
  then have h: "gens_nonneg joined_a \<or> reachable ''a'' joined_a" ..
  have a: "active (merge_crdt_sample [] (sample_c 7) 0 (merge_crdt_sample (sample_c 5) [] 3 joined_a)) = {''a''}"
    by (simp add: merge_crdt_sample_def merge_added_entry_def merge_removed_entry_def
        dict_get_def sample_c_def joined_a_def get_active_members_def Let_def)
  have t: "time joined_a = 1"
    by (simp add: joined_a_def)
  from merge_commutes_on_active [OF h, of "[]" "sample_c 7" 0 "sample_c 5" "[]" 3]
    g a t reachable_joined_a
  show ?thesis by simp
qed

text \<open>
  The hypothesis on the generations is needed: in the state \<open>st_neg\<close>, whose two entries for
  \<open>c\<close> have negative generations, the two orders give different active sets.
\<close>

lemma merge_order_negative_generations:
  "active (merge_crdt_sample [] (sample_c (- 4)) 0
            (merge_crdt_sample (sample_c (- 2)) [] 0 st_neg)) = {''c''} \<and>
   active (merge_crdt_sample (sample_c (- 2)) [] 0
            (merge_crdt_sample [] (sample_c (- 4)) 0 st_neg)) = {}"
  by (simp add: merge_crdt_sample_def merge_added_entry_def merge_removed_entry_def
        dict_get_def sample_c_def st_neg_def init_def get_active_members_def Let_def)

end
